theory Spec2Isabelle
  imports Complex_Main "HOL-Library.Sublist"
begin

section \<open>Strings, buffers and objects\<close>

text \<open>
  A JavaScript string is modelled by its UTF-8 encoding, a list of bytes (\<open>char\<close> is a
  byte), so \<open>Buffer.from(s, 'utf8')\<close> is the identity and the \<open>length\<close> of a buffer is
  the length of the list. A \<open>Buffer\<close> is a list of bytes too.

  An object is the list of its own enumerable properties in the order they were created;
  property names are unique. \<open>obj_get\<close> reads a property (\<open>None\<close> is the
  \<open>undefined\<close> of an absent one), \<open>obj_set\<close> is the assignment \<open>o[k] = v\<close>.
\<close>

type_synonym bytes = string

type_synonym 'v jsobject = "(string \<times> 'v) list"

definition CRLF :: string where
  "CRLF = [CHR 0x0D, CHR 0x0A]"

definition obj_get :: "'v jsobject \<Rightarrow> string \<Rightarrow> 'v option" where
  "obj_get obj k = map_of obj k"

fun obj_set :: "'v jsobject \<Rightarrow> string \<Rightarrow> 'v \<Rightarrow> 'v jsobject" where
  "obj_set [] k v = [(k, v)]"
| "obj_set ((k', w) # rest) k v =
     (if k' = k then (k', v) # rest else (k', w) # obj_set rest k v)"

text \<open>\<open>Array.prototype.join\<close> on an array of strings.\<close>

fun join :: "string \<Rightarrow> string list \<Rightarrow> string" where
  "join sep [] = []"
| "join sep [x] = x"
| "join sep (x # y # ys) = x @ sep @ join sep (y # ys)"

text \<open>
  \<open>for (p in o)\<close> and \<open>Object.keys(o)\<close> visit the properties whose name is an array
  index (the canonical decimal numeral of an integer below \<open>2^32 - 1\<close>) first, in
  ascending numeric order, and then the other properties in creation order.
\<close>

definition is_digit :: "char \<Rightarrow> bool" where
  "is_digit c = (48 \<le> (of_char c :: int) \<and> (of_char c :: int) \<le> 57)"

definition digits_value :: "string \<Rightarrow> int" where
  "digits_value s = foldl (\<lambda>n c. 10 * n + (of_char c - 48)) 0 s"

definition is_array_index :: "string \<Rightarrow> bool" where
  "is_array_index k =
     (k \<noteq> [] \<and> list_all is_digit k \<and> (if hd k = CHR ''0'' then k = ''0'' else True)
      \<and> digits_value k < 4294967295)"

definition enum_order :: "'v jsobject \<Rightarrow> 'v jsobject" where
  "enum_order obj =
     sort_key (\<lambda>(k, v). digits_value k) (filter (\<lambda>(k, v). is_array_index k) obj)
     @ filter (\<lambda>(k, v). \<not> is_array_index k) obj"

section \<open>The message record and the attachment\<close>

text \<open>
  The attachment object \<open>{name, data, type?}\<close>: \<open>img_type\<close> is \<open>None\<close> when the
  object has no own property \<open>type\<close>; \<open>img_data\<close> is a \<open>Buffer\<close>.
  A property of a message is \<open>undefined\<close>, a string (the declared type of every field
  of \<open>Message\<close> but \<open>file\<close>) or an attachment object (\<open>file\<close>).
\<close>

record imgObj =
  img_name :: string
  img_data :: bytes
  img_type :: "string option"

datatype jsval = Undefined | Str string | Obj imgObj

fun falsy :: "jsval option \<Rightarrow> bool" where
  "falsy None = True"
| "falsy (Some Undefined) = True"
| "falsy (Some (Str s)) = (s = [])"
| "falsy (Some (Obj i)) = False"

section \<open>Node's querystring module\<close>

text \<open>
  \<open>querystring.escape\<close> keeps the bytes of \<open>A-Z a-z 0-9 - _ . ! ~ * ' ( )\<close> and writes
  every other byte of the UTF-8 encoding as \<open>%XX\<close> in upper-case hexadecimal.
\<close>

definition unreserved :: "char \<Rightarrow> bool" where
  "unreserved c =
     (c \<in> set (''ABCDEFGHIJKLMNOPQRSTUVWXYZabcdefghijklmnopqrstuvwxyz0123456789-_.!~*()''
               @ [CHR 0x27]))"

definition hex_digit :: "nat \<Rightarrow> char" where
  "hex_digit n = ''0123456789ABCDEF'' ! n"

definition hexTable :: "char \<Rightarrow> string" where
  "hexTable c = [CHR ''%'', hex_digit (of_char c div 16), hex_digit (of_char c mod 16)]"

definition qs_escape :: "string \<Rightarrow> string" where
  "qs_escape s = concat (map (\<lambda>c. if unreserved c then [c] else hexTable c) s)"

text \<open>
  \<open>querystring.stringify\<close> of an object whose values are strings, \<open>undefined\<close> or
  objects: a string is escaped, every value that is not a primitive contributes the empty
  string; the fields \<open>key=value\<close> are separated by \<open>&\<close>.
\<close>

fun stringifyPrimitive :: "jsval \<Rightarrow> string" where
  "stringifyPrimitive (Str s) = s"
| "stringifyPrimitive Undefined = []"
| "stringifyPrimitive (Obj i) = []"

definition qs_field :: "string \<times> jsval \<Rightarrow> string" where
  "qs_field kv = qs_escape (fst kv) @ ''='' @ qs_escape (stringifyPrimitive (snd kv))"

definition qs_stringify :: "jsval jsobject \<Rightarrow> string" where
  "qs_stringify obj = join ''&'' (map qs_field (enum_order obj))"

text \<open>
  \<open>querystring.parse\<close> with the default separators and the default \<open>maxKeys\<close> of
  1000. The text is cut at every \<open>&\<close>; only the first 1000 pieces are read. A piece
  without \<open>=\<close> is a key with the empty value, and is skipped when it is empty; otherwise
  the key ends at the first \<open>=\<close>. In key and value \<open>+\<close> becomes a space and every
  \<open>%XX\<close> with two hexadecimal digits becomes the byte it names (a \<open>%\<close> that is not
  followed by two hexadecimal digits stays). The value of a key met again is collected
  with the earlier ones in an array. The result has no prototype.

  Where the decoded bytes are not well-formed UTF-8, Node replaces the offending bytes by
  U+FFFD; the model keeps the bytes. No string that \<open>qs_stringify\<close> produces from
  well-formed strings is concerned.
\<close>

datatype qval = QStr string | QArr "string list"

fun split_on :: "char \<Rightarrow> string \<Rightarrow> string list" where
  "split_on c [] = [[]]"
| "split_on c (x # xs) =
     (if x = c then [] # split_on c xs
      else (case split_on c xs of [] \<Rightarrow> [[x]] | s # ss \<Rightarrow> (x # s) # ss))"

definition unhex :: "char \<Rightarrow> nat option" where
  "unhex c =
     (let n = (of_char c :: nat) in
      if 48 \<le> n \<and> n \<le> 57 then Some (n - 48)
      else if 65 \<le> n \<and> n \<le> 70 then Some (n - 55)
      else if 97 \<le> n \<and> n \<le> 102 then Some (n - 87)
      else None)"

fun unescapeBuffer :: "string \<Rightarrow> string" where
  "unescapeBuffer [] = []"
| "unescapeBuffer [c] = [c]"
| "unescapeBuffer [c, h] = c # unescapeBuffer [h]"
| "unescapeBuffer (c # h # l # rest) =
     (if c = CHR ''%'' then
        (case unhex h of
           None \<Rightarrow> c # unescapeBuffer (h # l # rest)
         | Some a \<Rightarrow>
             (case unhex l of
                None \<Rightarrow> c # unescapeBuffer (h # l # rest)
              | Some b \<Rightarrow> char_of (a * 16 + b) # unescapeBuffer rest))
      else c # unescapeBuffer (h # l # rest))"

definition qs_decode :: "string \<Rightarrow> string" where
  "qs_decode s = unescapeBuffer (map (\<lambda>c. if c = CHR ''+'' then CHR '' '' else c) s)"

definition qs_pair :: "string \<Rightarrow> (string \<times> string) option" where
  "qs_pair seg =
     (if CHR ''='' \<in> set seg then
        Some (qs_decode (takeWhile (\<lambda>c. c \<noteq> CHR ''='') seg),
              qs_decode (tl (dropWhile (\<lambda>c. c \<noteq> CHR ''='') seg)))
      else if seg = [] then None
      else Some (qs_decode seg, []))"

fun addKeyValue :: "qval jsobject \<Rightarrow> string \<Rightarrow> string \<Rightarrow> qval jsobject" where
  "addKeyValue [] k v = [(k, QStr v)]"
| "addKeyValue ((k', w) # rest) k v =
     (if k' = k then
        (k', (case w of QStr u \<Rightarrow> QArr [u, v] | QArr us \<Rightarrow> QArr (us @ [v]))) # rest
      else (k', w) # addKeyValue rest k v)"

definition qs_parse :: "string \<Rightarrow> qval jsobject" where
  "qs_parse rs =
     (if rs = [] then []
      else fold (\<lambda>seg obj. case qs_pair seg of None \<Rightarrow> obj | Some (k, v) \<Rightarrow> addKeyValue obj k v)
             (take 1000 (split_on (CHR ''&'') rs)) [])"

section \<open>The multipart encoder\<close>

text \<open>
  \<open>qval_text\<close> is the text \<open>join\<close> gives an element of the array \<open>a\<close>: a string
  itself, an array its elements separated by commas. \<open>o[p] !== ''\<close> holds of every array.
\<close>

fun qval_text :: "qval \<Rightarrow> string" where
  "qval_text (QStr s) = s"
| "qval_text (QArr xs) = join '','' xs"

fun qval_nonempty :: "qval \<Rightarrow> bool" where
  "qval_nonempty (QStr s) = (s \<noteq> [])"
| "qval_nonempty (QArr xs) = True"

definition disposition :: "string \<Rightarrow> string" where
  "disposition p = ''Content-Disposition: form-data; name=\"'' @ p @ ''\"''"

definition attachment_lines :: "imgObj \<Rightarrow> string list" where
  "attachment_lines img =
     [''Content-Disposition: form-data; name=\"attachment\"; filename=\"'' @ img_name img @ ''\"'',
      (case img_type img of
         Some t \<Rightarrow> ''Content-Type: '' @ t
       | None \<Rightarrow> ''Content-Type: application/octet-stream''),
      [], []]"

text \<open>The loop over the parsed request (lines 63 to 70): the lines pushed on \<open>a\<close>.\<close>

definition field_loop :: "qval jsobject \<Rightarrow> string \<Rightarrow> string list \<Rightarrow> string list" where
  "field_loop obj b a =
     fold (\<lambda>(p, v) a. if qval_nonempty v then a @ [disposition p, [], qval_text v, b] else a)
       (enum_order obj) a"

text \<open>
  The array \<open>a\<close> when the payload is built: after the loop, the attachment's header
  lines are pushed, or, with no attachment, \<open>a.splice(-1, 1)\<close> removes the last element.
\<close>

definition mp_array :: "string \<Rightarrow> string \<Rightarrow> imgObj option \<Rightarrow> string list" where
  "mp_array rs b imgObj =
     (let a = field_loop (qs_parse rs) b [b] in
      case imgObj of
        Some img \<Rightarrow> a @ attachment_lines img
      | None \<Rightarrow> butlast a)"

definition reqString2MP :: "string \<Rightarrow> string \<Rightarrow> imgObj option \<Rightarrow> bytes" where
  "reqString2MP rs b imgObj =
     (let a = mp_array rs b imgObj in
      case imgObj of
        Some img \<Rightarrow> join CRLF a @ img_data img @ (CRLF @ b @ ''--'' @ CRLF)
      | None \<Rightarrow> join CRLF a @ (b @ ''--'' @ CRLF))"

section \<open>The client instance\<close>

text \<open>
  A value that \<open>JSON.parse\<close> returns. \<open>JSON.parse\<close> itself belongs to the platform: it
  is the parameter \<open>parse\<close> of the operations that call it, \<open>None\<close> when it throws a
  \<open>SyntaxError\<close>.
\<close>

datatype json =
  JNull | JBool bool | JNum rat | JStr string | JArr "json list" | JObj "(string \<times> json) list"

text \<open>
  Values of the transport options: \<open>httpOptions\<close> and the options \<open>o\<close> handed to
  \<open>http.request\<close>.
\<close>

datatype optval =
  VUndefined | VNull | VBool bool | VNum nat | VStr string | VObj "(string \<times> optval) list"

record opts =
  opt_token :: string
  opt_user :: string
  opt_httpOptions :: "optval jsobject option"
  opt_debug :: bool
  opt_onerror :: bool
  opt_update_sounds :: bool

text \<open>
  \<open>onerror\<close> says whether a handler is configured. A configured handler is the caller's
  code; it is taken to return normally, and each of its invocations is recorded.
\<close>

record pushover =
  boundary :: string
  token :: string
  user :: string
  httpOptions :: "optval jsobject option"
  sounds :: "json option"
  debug :: bool
  onerror :: bool

definition default_sounds :: json where
  "default_sounds = JObj
     [(''pushover'', JStr ''Pushover (default)''), (''bike'', JStr ''Bike''),
      (''bugle'', JStr ''Bugle''), (''cashregister'', JStr ''Cash Register''),
      (''classical'', JStr ''Classical''), (''cosmic'', JStr ''Cosmic''),
      (''falling'', JStr ''Falling''), (''gamelan'', JStr ''Gamelan''),
      (''incoming'', JStr ''Incoming''), (''intermission'', JStr ''Intermission''),
      (''magic'', JStr ''Magic''), (''mechanical'', JStr ''Mechanical''),
      (''pianobar'', JStr ''Piano Bar''), (''siren'', JStr ''Siren''),
      (''spacealarm'', JStr ''Space Alarm''), (''tugboat'', JStr ''Tug Boat''),
      (''alien'', JStr ''Alien Alarm (long)''), (''climb'', JStr ''Climb (long)''),
      (''persistent'', JStr ''Persistent (long)''), (''echo'', JStr ''Pushover Echo (long)''),
      (''updown'', JStr ''Up Down (long)''), (''none'', JStr ''None (silent)'')]"

text \<open>
  The constructor. \<open>rnd\<close> is the text of \<open>Math.random().toString(36).substring(2)\<close>.
  With \<open>update_sounds\<close> the constructor also starts a refresh and a daily timer; their
  completions are the events of \<open>updateSounds_event\<close> below.
\<close>

definition Pushover :: "opts \<Rightarrow> string \<Rightarrow> pushover" where
  "Pushover opts rnd =
     \<lparr>boundary = ''--'' @ rnd,
      token = opt_token opts,
      user = opt_user opts,
      httpOptions = opt_httpOptions opts,
      sounds = Some default_sounds,
      debug = opt_debug opts,
      onerror = opt_onerror opts\<rparr>"

section \<open>Default-filler and attachment loader\<close>

definition def :: "string list" where
  "def = [''device'', ''title'', ''url'', ''url_title'', ''priority'', ''timestamp'', ''sound'']"

definition setDefaults :: "jsval jsobject \<Rightarrow> jsval jsobject" where
  "setDefaults obj = fold (\<lambda>k obj. if falsy (obj_get obj k) then obj_set obj k (Str []) else obj) def obj"

text \<open>
  \<open>path.basename\<close> (POSIX): trailing slashes are dropped, then the text after the last
  slash is taken. \<open>fs.readFileSync\<close> is the parameter \<open>fs\<close>: the bytes of the file, or
  \<open>None\<close> when the read throws.
\<close>

text \<open>
  An error object of the transport: a plain \<open>Error\<close> (its message), which has no
  property \<open>errors\<close>, or an \<open>AggregateError\<close>, which Node emits when every connection
  attempt failed and whose property \<open>errors\<close> is the array of the errors of the attempts.
  \<open>Error v\<close> is \<open>new Error(v)\<close> for a value of the response and \<open>ErrorOf x\<close> is
  \<open>new Error(x)\<close> for an error object \<open>x\<close>.
\<close>

datatype errobj = PlainError string | AggregateError string "errobj list"

datatype thrown =
  SyntaxError string | TypeError string | Error "json option" | ErrorOf errobj | IOError string

definition basename :: "string \<Rightarrow> string" where
  "basename imgPath =
     rev (takeWhile (\<lambda>c. c \<noteq> CHR ''/'') (dropWhile (\<lambda>c. c = CHR ''/'') (rev imgPath)))"

definition loadImage :: "(string \<Rightarrow> bytes option) \<Rightarrow> string \<Rightarrow> thrown + imgObj" where
  "loadImage fs imgPath =
     (case fs imgPath of
        None \<Rightarrow> Inl (IOError imgPath)
      | Some bs \<Rightarrow> Inr \<lparr>img_name = basename imgPath, img_data = bs, img_type = None\<rparr>)"

section \<open>The error-reporting path\<close>

text \<open>
  The argument \<open>d\<close> of \<open>errors\<close> is a string or an error object of the transport;
  \<open>dval\<close> is \<open>d\<close> after the parse attempt of lines 167 to 173. A report is one
  invocation of the handler \<open>onerror\<close>, with its first argument: an exception that was
  caught, a value of the response, or an error object.
\<close>

datatype response = Response nat

datatype errors_arg = Text string | ErrorObject errobj

datatype dval = DText string | DJson json | DError errobj

datatype report = Report_thrown thrown | Report_value "json option" | Report_object errobj

record outcome =
  reports :: "(report \<times> response option) list"
  raised :: "thrown option"

text \<open>
  Reading a property: of \<open>null\<close> it throws a \<open>TypeError\<close>; a boolean, a number, a string
  and an array have no property \<open>errors\<close> or \<open>sounds\<close>.
\<close>

fun json_prop :: "json \<Rightarrow> string \<Rightarrow> thrown + json option" where
  "json_prop JNull k = Inl (TypeError ''Cannot read properties of null'')"
| "json_prop (JObj ps) k = Inr (map_of ps k)"
| "json_prop j k = Inr None"

text \<open>
  The value of \<open>d.errors\<close>: what the parsed response has there (a string and a plain
  \<open>Error\<close> have nothing), or the array of an \<open>AggregateError\<close>.
\<close>

datatype errors_prop = Of_response "json option" | Of_error "errobj list"

fun dval_errors :: "dval \<Rightarrow> thrown + errors_prop" where
  "dval_errors (DJson j) =
     (case json_prop j ''errors'' of Inl ex \<Rightarrow> Inl ex | Inr v \<Rightarrow> Inr (Of_response v))"
| "dval_errors (DText s) = Inr (Of_response None)"
| "dval_errors (DError (PlainError m)) = Inr (Of_response None)"
| "dval_errors (DError (AggregateError m es)) = Inr (Of_error es)"

fun truthy :: "json option \<Rightarrow> bool" where
  "truthy None = False"
| "truthy (Some JNull) = False"
| "truthy (Some (JBool b)) = b"
| "truthy (Some (JNum r)) = (r \<noteq> 0)"
| "truthy (Some (JStr s)) = (s \<noteq> [])"
| "truthy (Some (JArr xs)) = True"
| "truthy (Some (JObj ps)) = True"

text \<open>\<open>v[0]\<close> for a truthy \<open>v\<close> (of a string: its first character, taken as one byte).\<close>

fun index0 :: "json option \<Rightarrow> json option" where
  "index0 (Some (JArr (x # xs))) = Some x"
| "index0 (Some (JStr (c # cs))) = Some (JStr [c])"
| "index0 (Some (JObj ps)) = map_of ps ''0''"
| "index0 v = None"

text \<open>
  The test \<open>if (d.errors)\<close> (an array is truthy, also the empty one), the argument
  \<open>d.errors[0]\<close> the handler receives, and the exception \<open>new Error(d.errors[0], res)\<close>.
\<close>

fun errors_truthy :: "errors_prop \<Rightarrow> bool" where
  "errors_truthy (Of_response v) = truthy v"
| "errors_truthy (Of_error es) = True"

fun errors_first :: "errors_prop \<Rightarrow> report" where
  "errors_first (Of_response v) = Report_value (index0 v)"
| "errors_first (Of_error []) = Report_value None"
| "errors_first (Of_error (x # xs)) = Report_object x"

fun errors_thrown :: "errors_prop \<Rightarrow> thrown" where
  "errors_thrown (Of_response v) = Error (index0 v)"
| "errors_thrown (Of_error []) = Error None"
| "errors_thrown (Of_error (x # xs)) = ErrorOf x"

text \<open>Lines 167 to 173: the parse attempt. The call of an absent \<open>onerror\<close> throws.\<close>

definition errors_parse ::
  "(string \<Rightarrow> json option) \<Rightarrow> pushover \<Rightarrow> errors_arg \<Rightarrow> response option
     \<Rightarrow> thrown + ((report \<times> response option) list \<times> dval)" where
  "errors_parse parse self d res =
     (case d of
        Text s \<Rightarrow>
          (case parse s of
             Some j \<Rightarrow> Inr ([], DJson j)
           | None \<Rightarrow>
               if onerror self then Inr ([(Report_thrown (SyntaxError s), res)], DText s)
               else Inl (TypeError ''this.onerror is not a function''))
      | ErrorObject m \<Rightarrow> Inr ([], DError m))"

text \<open>Lines 175 to 182: the check of \<open>d.errors\<close>.\<close>

definition errors_check ::
  "pushover \<Rightarrow> (report \<times> response option) list \<Rightarrow> dval \<Rightarrow> response option \<Rightarrow> outcome" where
  "errors_check self reps d res =
     (case dval_errors d of
        Inl ex \<Rightarrow> \<lparr>reports = reps, raised = Some ex\<rparr>
      | Inr es \<Rightarrow>
          if errors_truthy es then
            (if onerror self then
               \<lparr>reports = reps @ [(errors_first es, res)], raised = None\<rparr>
             else \<lparr>reports = reps, raised = Some (errors_thrown es)\<rparr>)
          else \<lparr>reports = reps, raised = None\<rparr>)"

definition errors ::
  "(string \<Rightarrow> json option) \<Rightarrow> pushover \<Rightarrow> errors_arg \<Rightarrow> response option \<Rightarrow> outcome" where
  "errors parse self d res =
     (case errors_parse parse self d res of
        Inl ex \<Rightarrow> \<lparr>reports = [], raised = Some ex\<rparr>
      | Inr (reps, d') \<Rightarrow> errors_check self reps d' res)"

section \<open>The sound-table refresher\<close>

text \<open>
  The events of one request: a chunk of the response (its conversion to a string), the
  end of the response, an error of the transport. \<open>'e\<close> is the error object as its
  listener reads it: \<open>updateSounds\<close> hands it to \<open>errors\<close>, which reads its property
  \<open>errors\<close>; \<open>send\<close> hands it to the completion handler unread, and there its message
  stands for it. An exception that leaves a listener is uncaught: it ends the process, so
  no later event is handled.
\<close>

datatype 'e event = Data string | End | Failure 'e

definition sound_failed :: string where
  "sound_failed = ''Pushover: parsing sound data failed''"

text \<open>
  One call \<open>self.errors(d, res)\<close> made by a listener, with its arguments. The listeners
  of \<open>updateSounds\<close> give the client, the calls of \<open>errors\<close> they made, in order, and
  what came of them.
\<close>

type_synonym errors_call = "errors_arg \<times> response option"

text \<open>
  The \<open>catch\<close> clause of the \<open>end\<close> listener; \<open>calls\<close> and \<open>reps\<close> hold the calls made
  and what was reported in the \<open>try\<close>.
\<close>

definition updateSounds_catch ::
  "(string \<Rightarrow> json option) \<Rightarrow> pushover \<Rightarrow> errors_call list
     \<Rightarrow> (report \<times> response option) list \<Rightarrow> response
     \<Rightarrow> pushover \<times> errors_call list \<times> outcome" where
  "updateSounds_catch parse self calls reps res =
     (let r = errors parse self (Text sound_failed) (Some res)
      in (self, calls @ [(Text sound_failed, Some res)], r\<lparr>reports := reps @ reports r\<rparr>))"

definition updateSounds_end ::
  "(string \<Rightarrow> json option) \<Rightarrow> pushover \<Rightarrow> string \<Rightarrow> response
     \<Rightarrow> pushover \<times> errors_call list \<times> outcome" where
  "updateSounds_end parse self received res =
     (case parse received of
        None \<Rightarrow> updateSounds_catch parse self [] [] res
      | Some j \<Rightarrow>
          (let r = errors parse self (Text received) (Some res);
               calls = [(Text received, Some res)] in
           case raised r of
             Some ex \<Rightarrow> updateSounds_catch parse self calls (reports r) res
           | None \<Rightarrow>
               (case json_prop j ''sounds'' of
                  Inl ex \<Rightarrow> updateSounds_catch parse self calls (reports r) res
                | Inr v \<Rightarrow> (self\<lparr>sounds := v\<rparr>, calls, r))))"

definition updateSounds_error ::
  "(string \<Rightarrow> json option) \<Rightarrow> pushover \<Rightarrow> errobj
     \<Rightarrow> pushover \<times> errors_call list \<times> outcome" where
  "updateSounds_error parse self e =
     (self, [(ErrorObject e, None)], errors parse self (ErrorObject e) None)"

record refresh =
  rf_self :: pushover
  rf_data :: string
  rf_calls :: "errors_call list"
  rf_outcome :: outcome

definition updateSounds_event ::
  "(string \<Rightarrow> json option) \<Rightarrow> response \<Rightarrow> errobj event \<Rightarrow> refresh \<Rightarrow> refresh" where
  "updateSounds_event parse res ev st =
     (if raised (rf_outcome st) \<noteq> None then st
      else case ev of
        Data chunk \<Rightarrow> st\<lparr>rf_data := rf_data st @ chunk\<rparr>
      | End \<Rightarrow>
          (let (self', calls, r) = updateSounds_end parse (rf_self st) (rf_data st) res
           in st\<lparr>rf_self := self',
                 rf_calls := rf_calls st @ calls,
                 rf_outcome := r\<lparr>reports := reports (rf_outcome st) @ reports r\<rparr>\<rparr>)
      | Failure e \<Rightarrow>
          (let (self', calls, r) = updateSounds_error parse (rf_self st) e
           in st\<lparr>rf_self := self',
                 rf_calls := rf_calls st @ calls,
                 rf_outcome := r\<lparr>reports := reports (rf_outcome st) @ reports r\<rparr>\<rparr>))"

definition updateSounds ::
  "(string \<Rightarrow> json option) \<Rightarrow> pushover \<Rightarrow> response \<Rightarrow> errobj event list \<Rightarrow> refresh" where
  "updateSounds parse self res evs =
     fold (updateSounds_event parse res) evs
       \<lparr>rf_self = self, rf_data = [], rf_calls = [],
        rf_outcome = \<lparr>reports = [], raised = None\<rparr>\<rparr>"

section \<open>The dispatcher\<close>

text \<open>
  Lines 229 to 241: the object \<open>reqString\<close> before it is stringified. \<open>obj\<close> is the
  message after \<open>setDefaults\<close>.
\<close>

fun or_undefined :: "jsval option \<Rightarrow> jsval" where
  "or_undefined None = Undefined"
| "or_undefined (Some v) = v"

definition send_reqString :: "pushover \<Rightarrow> jsval jsobject \<Rightarrow> jsval jsobject" where
  "send_reqString self obj =
     fold (\<lambda>(p, v) reqString.
             if v \<noteq> Str [] then (if p \<noteq> ''file'' then obj_set reqString p v else reqString)
             else reqString)
       (enum_order obj)
       [(''token'', if token self \<noteq> [] then Str (token self) else or_undefined (obj_get obj ''token'')),
        (''user'', if user self \<noteq> [] then Str (user self) else or_undefined (obj_get obj ''user''))]"

text \<open>Lines 227 to 255: the payload \<open>mp\<close>. Reading the attachment may throw.\<close>

definition send_payload ::
  "(string \<Rightarrow> bytes option) \<Rightarrow> pushover \<Rightarrow> jsval jsobject \<Rightarrow> thrown + bytes" where
  "send_payload fs self obj0 =
     (let obj = setDefaults obj0;
          reqString = qs_stringify (send_reqString self obj)
      in if \<not> falsy (obj_get obj ''file'') then
           (case obj_get obj ''file'' of
              Some (Str imgPath) \<Rightarrow>
                (case loadImage fs imgPath of
                   Inl ex \<Rightarrow> Inl ex
                 | Inr img \<Rightarrow> Inr (reqString2MP reqString (boundary self) (Some img)))
            | Some (Obj img) \<Rightarrow> Inr (reqString2MP reqString (boundary self) (Some img))
            | _ \<Rightarrow> Inl (TypeError ''Cannot read properties of undefined''))
         else Inr (reqString2MP reqString (boundary self) None))"

text \<open>
  Lines 223 to 276: the options \<open>o\<close> of the request (here \<open>ropts\<close>). \<open>pUrl_parsed\<close> is
  \<open>url.parse(pUrl)\<close>. \<open>url.parse\<close> of the proxy is the parameter \<open>url_parse\<close>, which
  gives the \<open>hostname\<close> and the \<open>protocol\<close> of its argument. The source is not in
  strict mode: assigning a property of a primitive does nothing, of \<open>null\<close> or
  \<open>undefined\<close> throws.
\<close>

definition pUrl_parsed :: "optval jsobject" where
  "pUrl_parsed =
     [(''protocol'', VStr ''https:''), (''slashes'', VBool True), (''auth'', VNull),
      (''host'', VStr ''api.pushover.net''), (''port'', VNull),
      (''hostname'', VStr ''api.pushover.net''), (''hash'', VNull), (''search'', VNull),
      (''query'', VNull), (''pathname'', VStr ''/1/messages.json''),
      (''path'', VStr ''/1/messages.json''),
      (''href'', VStr ''https://api.pushover.net/1/messages.json'')]"

definition send_headers :: "pushover \<Rightarrow> bytes \<Rightarrow> optval jsobject" where
  "send_headers self mp =
     [(''Content-type'', VStr (''multipart/form-data; boundary='' @ drop 2 (boundary self))),
      (''Content-Length'', VNum (length mp))]"

fun opt_truthy :: "optval option \<Rightarrow> bool" where
  "opt_truthy None = False"
| "opt_truthy (Some VUndefined) = False"
| "opt_truthy (Some VNull) = False"
| "opt_truthy (Some (VBool b)) = b"
| "opt_truthy (Some (VNum n)) = (n \<noteq> 0)"
| "opt_truthy (Some (VStr s)) = (s \<noteq> [])"
| "opt_truthy (Some (VObj ps)) = True"

fun opt_or_undefined :: "optval option \<Rightarrow> optval" where
  "opt_or_undefined None = VUndefined"
| "opt_or_undefined (Some v) = v"

definition via_proxy :: "pushover \<Rightarrow> bool" where
  "via_proxy self =
     (let httpOpts = (case httpOptions self of Some h \<Rightarrow> h | None \<Rightarrow> [])
      in opt_truthy (obj_get httpOpts ''proxy''))"

definition send_options ::
  "(string \<Rightarrow> optval \<times> optval) \<Rightarrow> pushover \<Rightarrow> bytes \<Rightarrow> thrown + optval jsobject" where
  "send_options url_parse self mp =
     (let ropts = obj_set pUrl_parsed ''method'' (VStr ''POST'');
          ropts = obj_set ropts ''headers'' (VObj (send_headers self mp));
          httpOpts = (case httpOptions self of Some h \<Rightarrow> h | None \<Rightarrow> []);
          ropts = fold (\<lambda>(key, v) ropts. if key \<noteq> ''proxy'' then obj_set ropts key v else ropts)
                (enum_order httpOpts) ropts
      in if via_proxy self then
           (case obj_get httpOpts ''proxy'' of
              Some (VStr u) \<Rightarrow>
                (let (hostname, protocol) = url_parse u;
                     host = opt_or_undefined (obj_get ropts ''host'')
                 in case opt_or_undefined (obj_get ropts ''headers'') of
                      VObj hs \<Rightarrow>
                        Inr (obj_set (obj_set (obj_set ropts ''headers'' (VObj (obj_set hs ''Host'' host)))
                               ''host'' hostname) ''protocol'' protocol)
                    | VNull \<Rightarrow> Inl (TypeError ''Cannot set properties of null'')
                    | VUndefined \<Rightarrow> Inl (TypeError ''Cannot set properties of undefined'')
                    | _ \<Rightarrow> Inr (obj_set (obj_set ropts ''host'' hostname) ''protocol'' protocol))
            | _ \<Rightarrow> Inl (TypeError ''The url argument must be of type string''))
         else Inr ropts)"

datatype transport = Http | Https

record request =
  req_options :: "optval jsobject"
  req_transport :: transport
  req_body :: bytes

text \<open>
  The synchronous part of \<open>send\<close>: the request handed to \<open>http.request\<close> or
  \<open>https.request\<close> and written with \<open>req.write(mp)\<close>, or the exception that leaves
  \<open>send\<close>. (The debug output of lines 312 to 314 is not modelled.)
\<close>

definition send_request ::
  "(string \<Rightarrow> bytes option) \<Rightarrow> (string \<Rightarrow> optval \<times> optval) \<Rightarrow> pushover \<Rightarrow> jsval jsobject
     \<Rightarrow> thrown + request" where
  "send_request fs url_parse self obj =
     (case send_payload fs self obj of
        Inl ex \<Rightarrow> Inl ex
      | Inr mp \<Rightarrow>
          (case send_options url_parse self mp of
             Inl ex \<Rightarrow> Inl ex
           | Inr ropts \<Rightarrow>
               Inr \<lparr>req_options = ropts,
                    req_transport = (if via_proxy self then Http else Https),
                    req_body = mp\<rparr>))"

text \<open>
  The listeners of lines 285 to 310. \<open>ex_fn\<close> says whether the variable \<open>fn\<close> still
  holds the completion handler; \<open>ex_calls\<close> records its invocations, each with the
  arguments \<open>(err, data, res)\<close> it was given (\<open>None\<close> for \<open>undefined\<close>). The variable
  \<open>err\<close> of the response callback is never assigned.
\<close>

datatype call = Call "string option" "string option" "response option"

record exchange =
  ex_fn :: bool
  ex_data :: string
  ex_calls :: "call list"
  ex_outcome :: outcome

definition send_event ::
  "(string \<Rightarrow> json option) \<Rightarrow> pushover \<Rightarrow> response \<Rightarrow> string event \<Rightarrow> exchange \<Rightarrow> exchange" where
  "send_event parse self res ev st =
     (if raised (ex_outcome st) \<noteq> None then st
      else case ev of
        Data chunk \<Rightarrow> st\<lparr>ex_data := ex_data st @ chunk\<rparr>
      | End \<Rightarrow>
          (let r = errors parse self (Text (ex_data st)) (Some res);
               st = st\<lparr>ex_outcome := r\<lparr>reports := reports (ex_outcome st) @ reports r\<rparr>\<rparr>
           in if raised r \<noteq> None then st
              else if ex_fn st then
                st\<lparr>ex_calls := ex_calls st @ [Call None (Some (ex_data st)) (Some res)]\<rparr>
              else st)
      | Failure e \<Rightarrow>
          (if ex_fn st then st\<lparr>ex_calls := ex_calls st @ [Call (Some e) None None]\<rparr>
           else st)\<lparr>ex_fn := False\<rparr>)"

text \<open>
  \<open>send\<close>: \<open>fn\<close> says whether the caller gave a completion handler, \<open>res\<close> is the
  response and \<open>evs\<close> are the events the transport emits for this request, in order.
\<close>

definition send ::
  "(string \<Rightarrow> bytes option) \<Rightarrow> (string \<Rightarrow> optval \<times> optval) \<Rightarrow> (string \<Rightarrow> json option)
     \<Rightarrow> pushover \<Rightarrow> jsval jsobject \<Rightarrow> bool \<Rightarrow> response \<Rightarrow> string event list
     \<Rightarrow> thrown + request \<times> exchange" where
  "send fs url_parse parse self obj fn res evs =
     (case send_request fs url_parse self obj of
        Inl ex \<Rightarrow> Inl ex
      | Inr rq \<Rightarrow>
          Inr (rq, fold (send_event parse self res) evs
                     \<lparr>ex_fn = fn, ex_data = [], ex_calls = [],
                      ex_outcome = \<lparr>reports = [], raised = None\<rparr>\<rparr>))"

section \<open>The parts of a body\<close>

text \<open>
  The notions the statements below are written in. \<open>emitted_fields\<close> lists the pairs
  for which the loop of lines 63 to 70 pushes lines, with the text of their value, and
  \<open>field_lines\<close> are the four elements it pushes for one pair.

  The other definitions follow the words of the specification (section 4.3) and not the
  code; the theorems compare the code with them. \<open>text_part\<close> is step 2: a line with the
  boundary marker, the \<open>Content-Disposition\<close> header line, a blank line and the value,
  each terminated by CRLF. \<open>attachment_head\<close> is the head of step 3: the boundary marker,
  the \<open>Content-Disposition\<close> header with the file name, the \<open>Content-Type\<close> header and a
  blank line; the raw content follows it. \<open>declared_type\<close> is the attachment's declared
  type, or \<open>application/octet-stream\<close> if none is given. \<open>mp_framing\<close> is all the text
  before the attachment's content.
\<close>

definition emitted_fields :: "qval jsobject \<Rightarrow> (string \<times> string) list" where
  "emitted_fields obj =
     map (\<lambda>(p, v). (p, qval_text v)) (filter (\<lambda>(p, v). qval_nonempty v) (enum_order obj))"

definition field_lines :: "string \<Rightarrow> string \<times> string \<Rightarrow> string list" where
  "field_lines b kv = [disposition (fst kv), [], snd kv, b]"

definition text_part :: "string \<Rightarrow> string \<times> string \<Rightarrow> bytes" where
  "text_part b kv = b @ CRLF @ disposition (fst kv) @ CRLF @ CRLF @ snd kv @ CRLF"

definition declared_type :: "imgObj \<Rightarrow> string" where
  "declared_type img = (case img_type img of Some t \<Rightarrow> t | None \<Rightarrow> ''application/octet-stream'')"

definition attachment_head :: "string \<Rightarrow> string \<Rightarrow> string \<Rightarrow> bytes" where
  "attachment_head b filename ctype =
     b @ CRLF @ ''Content-Disposition: form-data; name=\"attachment\"; filename=\"'' @ filename @ ''\"''
     @ CRLF @ ''Content-Type: '' @ ctype @ CRLF @ CRLF"

definition mp_framing :: "string \<Rightarrow> string \<Rightarrow> imgObj \<Rightarrow> bytes" where
  "mp_framing rs b img =
     concat (map (text_part b) (emitted_fields (qs_parse rs)))
     @ attachment_head b (img_name img) (declared_type img)"

text \<open>
  The bodies of two loops of the source, named: \<open>fill\<close> is one turn of the loop of
  \<open>setDefaults\<close> (lines 27 to 31), \<open>copy_field\<close> one turn of the loop of \<open>send\<close>
  (lines 235 to 241).
\<close>

definition fill :: "string \<Rightarrow> jsval jsobject \<Rightarrow> jsval jsobject" where
  "fill k obj = (if falsy (obj_get obj k) then obj_set obj k (Str []) else obj)"

definition copy_field :: "string \<times> jsval \<Rightarrow> jsval jsobject \<Rightarrow> jsval jsobject" where
  "copy_field pv reqString =
     (if snd pv \<noteq> Str [] then (if fst pv \<noteq> ''file'' then obj_set reqString (fst pv) (snd pv) else reqString)
      else reqString)"

text \<open>One turn of the loop over \<open>httpOptions\<close> (lines 264 to 268).\<close>

definition pass_option :: "string \<times> optval \<Rightarrow> optval jsobject \<Rightarrow> optval jsobject" where
  "pass_option kv ropts = (if fst kv \<noteq> ''proxy'' then obj_set ropts (fst kv) (snd kv) else ropts)"

text \<open>The listeners' state when \<open>send\<close> has made the request (lines 285 to 310).\<close>

definition exchange0 :: "bool \<Rightarrow> exchange" where
  "exchange0 fn = \<lparr>ex_fn = fn, ex_data = [], ex_calls = [], ex_outcome = \<lparr>reports = [], raised = None\<rparr>\<rparr>"

text \<open>
  Concrete inputs, at which the theorems are instantiated: a client with token \<open>T\<close>, user
  \<open>U\<close> and boundary \<open>--abc\<close>, without and with an \<open>onerror\<close> handler; a file system
  holding one file of two bytes.
\<close>

definition sample_opts :: opts where
  "sample_opts =
     \<lparr>opt_token = ''T'', opt_user = ''U'', opt_httpOptions = None, opt_debug = False,
      opt_onerror = False, opt_update_sounds = False\<rparr>"

definition sample_client :: pushover where
  "sample_client = Pushover sample_opts ''abc''"

definition sample_disk :: "string \<Rightarrow> bytes option" where
  "sample_disk p = (if p = ''/tmp/pic.png'' then Some [CHR 0x89, CHR 0x50] else None)"

text \<open>
  \<open>JSON.parse\<close> at the texts of the examples: it gives what \<open>JSON.parse\<close> gives for
  the two JSON texts below and fails, as \<open>JSON.parse\<close> does, on the other texts the
  examples use (\<open><html>\<close> and the message \<open>sound_failed\<close>, which are not JSON).
\<close>

definition sample_parse :: "string \<Rightarrow> json option" where
  "sample_parse s =
     (if s = ''{\"errors\":[\"bad\"]}'' then Some (JObj [(''errors'', JArr [JStr ''bad''])])
      else if s = ''{\"sounds\":{\"bike\":\"Bike\"}}''
        then Some (JObj [(''sounds'', JObj [(''bike'', JStr ''Bike'')])])
      else None)"

section \<open>Auxiliary facts\<close>

lemma join_Cons: "join sep (x # xs) = x @ concat (map (\<lambda>y. sep @ y) xs)"
  by (induction xs arbitrary: x) auto

lemma split_on_no_sep: "c \<notin> set s \<Longrightarrow> split_on c s = [s]"
  by (induction s) auto

lemma split_on_append: "c \<notin> set s \<Longrightarrow> split_on c (s @ c # t) = s # split_on c t"
  by (induction s) auto

lemma split_on_join:
  "segs \<noteq> [] \<Longrightarrow> list_all (\<lambda>s. c \<notin> set s) segs \<Longrightarrow> split_on c (join [c] segs) = segs"
proof (induction segs)
  case Nil
  then show ?case by simp
next
  case (Cons s segs)
  show ?case
  proof (cases segs)
    case Nil
    with Cons.prems show ?thesis by (simp add: split_on_no_sep)
  next
    case (Cons t ts)
    with Cons.prems Cons.IH show ?thesis
      by (simp add: split_on_append)
  qed
qed

lemma hex_digits_all:
  "list_all (\<lambda>n. unhex (hex_digit n) = Some n \<and> hex_digit n \<noteq> CHR ''&'' \<and> hex_digit n \<noteq> CHR ''=''
             \<and> hex_digit n \<noteq> CHR ''+'') [0..<16]"
  by code_simp

lemma hex_digit_facts:
  assumes "n < 16"
  shows "unhex (hex_digit n) = Some n" and "hex_digit n \<noteq> CHR ''&''" and "hex_digit n \<noteq> CHR ''=''"
    and "hex_digit n \<noteq> CHR ''+''"
proof -
  have "n \<in> set [0..<16]" using assms by simp
  then have "unhex (hex_digit n) = Some n \<and> hex_digit n \<noteq> CHR ''&'' \<and> hex_digit n \<noteq> CHR ''=''
             \<and> hex_digit n \<noteq> CHR ''+''"
    using hex_digits_all unfolding list_all_iff by blast
  then show "unhex (hex_digit n) = Some n" and "hex_digit n \<noteq> CHR ''&''" and "hex_digit n \<noteq> CHR ''=''"
    and "hex_digit n \<noteq> CHR ''+''" by simp_all
qed

lemma unescapeBuffer_plain: "c \<noteq> CHR ''%'' \<Longrightarrow> unescapeBuffer (c # xs) = c # unescapeBuffer xs"
  by (cases xs rule: unescapeBuffer.cases) auto

lemma of_char_less_256: "(of_char c :: nat) < 256"
proof -
  have "(of_char c :: nat) mod 256 < 256" by (rule mod_less_divisor) simp
  then show ?thesis by (simp only: of_char_mod_256)
qed

lemma unescapeBuffer_hexTable: "unescapeBuffer (hexTable c @ xs) = c # unescapeBuffer xs"
proof -
  have "(of_char c :: nat) div 16 < 16" using of_char_less_256 [of c] by arith
  moreover have "(of_char c :: nat) mod 16 < 16" by simp
  ultimately show ?thesis
    by (simp add: hexTable_def hex_digit_facts(1))
qed

lemma unreserved_not_percent: "unreserved c \<Longrightarrow> c \<noteq> CHR ''%''"
  by (auto simp: unreserved_def)

lemma unescapeBuffer_escape: "unescapeBuffer (qs_escape s @ xs) = s @ unescapeBuffer xs"
  by (induction s) (auto simp: qs_escape_def unescapeBuffer_plain unescapeBuffer_hexTable unreserved_not_percent)

lemma hexTable_plain:
  "x \<in> set (hexTable c) \<Longrightarrow> x \<noteq> CHR ''&'' \<and> x \<noteq> CHR ''='' \<and> x \<noteq> CHR ''+''"
proof -
  have a: "(of_char c :: nat) div 16 < 16" using of_char_less_256 [of c] by arith
  have b: "(of_char c :: nat) mod 16 < 16" by simp
  assume "x \<in> set (hexTable c)"
  then show ?thesis
    using hex_digit_facts(2-4) [OF a] hex_digit_facts(2-4) [OF b] by (auto simp: hexTable_def)
qed

lemma unreserved_plain:
  "unreserved x \<Longrightarrow> x \<noteq> CHR ''&'' \<and> x \<noteq> CHR ''='' \<and> x \<noteq> CHR ''+''"
  by (auto simp: unreserved_def)

lemma escape_plain:
  "x \<in> set (qs_escape s) \<Longrightarrow> x \<noteq> CHR ''&'' \<and> x \<noteq> CHR ''='' \<and> x \<noteq> CHR ''+''"
  unfolding qs_escape_def using hexTable_plain unreserved_plain
  by (fastforce split: if_splits)

lemma qs_decode_escape: "qs_decode (qs_escape s) = s"
proof -
  have "map (\<lambda>c. if c = CHR ''+'' then CHR '' '' else c) (qs_escape s) = qs_escape s"
    using escape_plain [of _ s] by (simp add: map_idI)
  then show ?thesis
    using unescapeBuffer_escape [of s "[]"] by (simp add: qs_decode_def)
qed

lemma qs_pair_field: "qs_pair (qs_field (k, v)) = Some (k, stringifyPrimitive v)"
proof -
  let ?e = "qs_escape k" and ?t = "qs_escape (stringifyPrimitive v)"
  have ne: "\<And>x. x \<in> set ?e \<Longrightarrow> x \<noteq> CHR ''=''" using escape_plain by blast
  have f: "qs_field (k, v) = ?e @ CHR ''='' # ?t" by (simp add: qs_field_def)
  have t: "takeWhile (\<lambda>c. c \<noteq> CHR ''='') (?e @ CHR ''='' # ?t) = ?e"
    using ne by (simp add: takeWhile_append2)
  have d: "dropWhile (\<lambda>c. c \<noteq> CHR ''='') (?e @ CHR ''='' # ?t) = CHR ''='' # ?t"
    using ne by (simp add: dropWhile_append2)
  show ?thesis
    unfolding f qs_pair_def t d by (simp add: qs_decode_escape)
qed

lemma qs_field_no_amp: "CHR ''&'' \<notin> set (qs_field kv)"
  using escape_plain by (fastforce simp: qs_field_def)

lemma qs_field_nonempty: "qs_field kv \<noteq> []"
  by (simp add: qs_field_def)

lemma addKeyValue_fresh: "k \<notin> fst ` set obj \<Longrightarrow> addKeyValue obj k v = obj @ [(k, QStr v)]"
  by (induction obj) auto

lemma fold_addKeyValue:
  "distinct (map fst kvs) \<Longrightarrow> fst ` set kvs \<inter> fst ` set acc = {} \<Longrightarrow>
   fold (\<lambda>seg obj. case qs_pair seg of None \<Rightarrow> obj | Some (k, v) \<Rightarrow> addKeyValue obj k v)
     (map qs_field kvs) acc
   = acc @ map (\<lambda>(k, v). (k, QStr (stringifyPrimitive v))) kvs"
proof (induction kvs arbitrary: acc)
  case Nil
  then show ?case by simp
next
  case (Cons kv kvs)
  obtain k v where kv: "kv = (k, v)" by (cases kv)
  have fresh: "k \<notin> fst ` set acc" using Cons.prems kv by auto
  have disj: "fst ` set kvs \<inter> fst ` set (acc @ [(k, QStr (stringifyPrimitive v))]) = {}"
    using Cons.prems kv by auto
  have dist: "distinct (map fst kvs)" using Cons.prems by simp
  show ?case
    using Cons.IH [OF dist disj] by (simp add: kv qs_pair_field addKeyValue_fresh [OF fresh])
qed

lemma join_nonempty: "xs \<noteq> [] \<Longrightarrow> hd xs \<noteq> [] \<Longrightarrow> join sep xs \<noteq> []"
  by (cases xs) (auto simp: join_Cons)

lemma set_enum_order: "set (enum_order obj) = set obj"
  by (auto simp: enum_order_def)

lemma length_enum_order: "length (enum_order obj) = length obj"
proof -
  have "length (enum_order obj)
      = length (filter (\<lambda>(k, v). is_array_index k) obj) + length (filter (\<lambda>(k, v). \<not> is_array_index k) obj)"
    by (simp add: enum_order_def)
  also have "\<dots> = length obj"
    using sum_length_filter_compl [of "\<lambda>(k, v). is_array_index k" obj] by (simp add: case_prod_unfold)
  finally show ?thesis .
qed

lemma distinct_enum_order: "distinct (map fst obj) \<Longrightarrow> distinct (map fst (enum_order obj))"
proof -
  assume d: "distinct (map fst obj)"
  then have "distinct obj" and inj: "inj_on fst (set obj)"
    by (simp_all add: distinct_map)
  then have "distinct (enum_order obj)"
    by (auto simp: enum_order_def)
  then show ?thesis
    using inj by (simp add: distinct_map set_enum_order)
qed

lemma qs_roundtrip:
  assumes "distinct (map fst obj)" and "length obj \<le> 1000"
  shows "qs_parse (qs_stringify obj)
         = map (\<lambda>(k, v). (k, QStr (stringifyPrimitive v))) (enum_order obj)"
proof (cases "enum_order obj = []")
  case True
  then show ?thesis by (simp add: qs_parse_def qs_stringify_def)
next
  case False
  let ?segs = "map qs_field (enum_order obj)"
  have ne: "?segs \<noteq> []" using False by simp
  have "hd ?segs \<noteq> []" using False by (simp add: hd_map qs_field_nonempty)
  then have nonempty: "qs_stringify obj \<noteq> []"
    unfolding qs_stringify_def using ne by (rule join_nonempty [rotated])
  have noamp: "list_all (\<lambda>s. CHR ''&'' \<notin> set s) ?segs"
    by (simp add: list_all_iff qs_field_no_amp)
  have split: "split_on (CHR ''&'') (qs_stringify obj) = ?segs"
    unfolding qs_stringify_def using split_on_join [OF ne noamp] by simp
  have len: "length ?segs \<le> 1000" using assms(2) by (simp add: length_enum_order)
  show ?thesis
    unfolding qs_parse_def split using nonempty len
      fold_addKeyValue [of "enum_order obj" "[]"] distinct_enum_order [OF assms(1)]
    by simp
qed





lemma field_loop_eq:
  "field_loop obj b a = a @ concat (map (field_lines b) (emitted_fields obj))"
proof -
  have "fold (\<lambda>(p, v) a. if qval_nonempty v then a @ [disposition p, [], qval_text v, b] else a) xs a
      = a @ concat (map (field_lines b)
              (map (\<lambda>(p, v). (p, qval_text v)) (filter (\<lambda>(p, v). qval_nonempty v) xs)))" for xs
    by (induction xs arbitrary: a) (auto simp: field_lines_def)
  then show ?thesis by (simp add: field_loop_def emitted_fields_def)
qed

lemma concat_map_sep_field_lines:
  "concat (map (\<lambda>y. CRLF @ y) (concat (map (field_lines b) ps)))
   = concat (map (\<lambda>kv. CRLF @ disposition (fst kv) @ CRLF @ CRLF @ snd kv @ CRLF @ b) ps)"
  by (induction ps) (auto simp: field_lines_def)

lemma rotate_parts:
  "b @ concat (map (\<lambda>kv. CRLF @ disposition (fst kv) @ CRLF @ CRLF @ snd kv @ CRLF @ b) ps)
   = concat (map (text_part b) ps) @ b"
  by (induction ps) (auto simp: text_part_def)

lemma join_field_lines_app:
  "join CRLF (b # concat (map (field_lines b) ps) @ ls)
   = concat (map (text_part b) ps) @ b @ concat (map (\<lambda>y. CRLF @ y) ls)"
  using rotate_parts [of b ps] by (simp add: join_Cons concat_map_sep_field_lines)

lemma framing_eq: "join CRLF (mp_array rs b (Some img)) = mp_framing rs b img"
  by (simp add: mp_array_def field_loop_eq join_field_lines_app attachment_lines_def
      mp_framing_def attachment_head_def declared_type_def split: option.split)

lemma body_with_attachment:
  "reqString2MP rs b (Some img) = mp_framing rs b img @ img_data img @ CRLF @ b @ ''--'' @ CRLF"
  using framing_eq [of rs b img] by (simp add: reqString2MP_def)

lemma body_without_attachment_empty:
  "emitted_fields (qs_parse rs) = [] \<Longrightarrow> reqString2MP rs b None = b @ ''--'' @ CRLF"
  by (simp add: reqString2MP_def mp_array_def field_loop_eq)

lemma body_without_attachment_snoc:
  "emitted_fields (qs_parse rs) = ps @ [kv] \<Longrightarrow>
   reqString2MP rs b None
   = concat (map (text_part b) ps) @ b @ CRLF @ disposition (fst kv) @ CRLF @ CRLF @ snd kv
     @ b @ ''--'' @ CRLF"
proof -
  assume e: "emitted_fields (qs_parse rs) = ps @ [kv]"
  have "butlast (b # concat (map (field_lines b) (ps @ [kv])))
      = b # concat (map (field_lines b) ps) @ [disposition (fst kv), [], snd kv]"
    by (simp add: field_lines_def butlast_append)
  then show ?thesis
    by (simp add: reqString2MP_def mp_array_def field_loop_eq e join_field_lines_app)
qed

lemma obj_get_obj_set: "obj_get (obj_set obj k v) k' = (if k' = k then Some v else obj_get obj k')"
  by (induction obj) (auto simp: obj_get_def)

lemma keys_obj_set:
  "map fst (obj_set obj k v) = (if k \<in> fst ` set obj then map fst obj else map fst obj @ [k])"
  by (induction obj) force+

lemma distinct_obj_set: "distinct (map fst obj) \<Longrightarrow> distinct (map fst (obj_set obj k v))"
  by (simp add: keys_obj_set)

lemma length_obj_set: "length (obj_set obj k v) \<le> Suc (length obj)"
  by (induction obj) auto


lemma obj_get_None_iff: "obj_get obj k = None \<longleftrightarrow> k \<notin> fst ` set obj"
  by (simp add: obj_get_def map_of_eq_None_iff)

lemma obj_get_enum_order:
  assumes "distinct (map fst obj)"
  shows "obj_get (enum_order obj) k = obj_get obj k"
proof -
  have "map_of (enum_order obj) = map_of obj"
    using assms distinct_enum_order [OF assms] by (simp add: map_of_inject_set set_enum_order)
  then show ?thesis by (simp add: obj_get_def)
qed

lemma setDefaults_fold: "setDefaults obj = fold fill def obj"
  by (simp add: setDefaults_def fill_def [abs_def])

lemma obj_get_fill:
  "obj_get (fill a obj) k = (if k = a \<and> falsy (obj_get obj a) then Some (Str []) else obj_get obj k)"
  by (simp add: fill_def obj_get_obj_set)

lemma falsy_fill: "falsy (obj_get (fill a obj) k) = falsy (obj_get obj k)"
  by (simp add: obj_get_fill)

lemma obj_get_fold_fill:
  "obj_get (fold fill ks obj) k
   = (if k \<in> set ks \<and> falsy (obj_get obj k) then Some (Str []) else obj_get obj k)"
proof (induction ks arbitrary: obj)
  case Nil
  then show ?case by simp
next
  case (Cons a ks)
  have "obj_get (fold fill (a # ks) obj) k = obj_get (fold fill ks (fill a obj)) k" by simp
  also have "\<dots> = (if k \<in> set ks \<and> falsy (obj_get (fill a obj) k) then Some (Str [])
                   else obj_get (fill a obj) k)"
    by (rule Cons.IH)
  also have "\<dots> = (if k \<in> set (a # ks) \<and> falsy (obj_get obj k) then Some (Str []) else obj_get obj k)"
    by (auto simp: falsy_fill obj_get_fill)
  finally show ?case .
qed

lemma obj_get_setDefaults:
  "obj_get (setDefaults obj) k
   = (if k \<in> set def \<and> falsy (obj_get obj k) then Some (Str []) else obj_get obj k)"
  by (simp add: setDefaults_fold obj_get_fold_fill)

lemma distinct_fill: "distinct (map fst obj) \<Longrightarrow> distinct (map fst (fill k obj))"
  by (simp add: fill_def distinct_obj_set)

lemma distinct_fold_fill: "distinct (map fst obj) \<Longrightarrow> distinct (map fst (fold fill ks obj))"
  by (induction ks arbitrary: obj) (simp_all add: distinct_fill)

lemma length_fold_fill: "length (fold fill ks obj) \<le> length obj + length ks"
proof (induction ks arbitrary: obj)
  case Nil
  then show ?case by simp
next
  case (Cons a ks)
  have "length (fill a obj) \<le> Suc (length obj)"
    using length_obj_set [of obj a "Str []"] by (simp add: fill_def)
  then show ?case using Cons.IH [of "fill a obj"] by simp
qed

lemma distinct_setDefaults: "distinct (map fst obj) \<Longrightarrow> distinct (map fst (setDefaults obj))"
  by (simp add: setDefaults_fold distinct_fold_fill)

lemma length_setDefaults: "length (setDefaults obj) \<le> length obj + 7"
  using length_fold_fill [of def obj] by (simp add: setDefaults_fold def_def)

lemma file_not_default: "''file'' \<notin> set def" and token_not_default: "''token'' \<notin> set def"
  and user_not_default: "''user'' \<notin> set def"
  by (simp_all add: def_def)

lemma obj_get_copy_field:
  "obj_get (copy_field (p, v) r) k
   = (if k = p \<and> v \<noteq> Str [] \<and> p \<noteq> ''file'' then Some v else obj_get r k)"
  by (simp add: copy_field_def obj_get_obj_set)

lemma obj_get_fold_copy:
  "distinct (map fst xs) \<Longrightarrow>
   obj_get (fold copy_field xs r) k
   = (case map_of xs k of
        Some v \<Rightarrow> if v \<noteq> Str [] \<and> k \<noteq> ''file'' then Some v else obj_get r k
      | None \<Rightarrow> obj_get r k)"
proof (induction xs arbitrary: r)
  case Nil
  then show ?case by simp
next
  case (Cons x xs)
  obtain p v where x: "x = (p, v)" by (cases x)
  have notin: "map_of xs p = None" using Cons.prems x by (simp add: map_of_eq_None_iff)
  have d: "distinct (map fst xs)" using Cons.prems by simp
  have "obj_get (fold copy_field (x # xs) r) k = obj_get (fold copy_field xs (copy_field (p, v) r)) k"
    by (simp add: x)
  also have "\<dots> = (case map_of xs k of
        Some v' \<Rightarrow> if v' \<noteq> Str [] \<and> k \<noteq> ''file'' then Some v' else obj_get (copy_field (p, v) r) k
      | None \<Rightarrow> obj_get (copy_field (p, v) r) k)"
    by (rule Cons.IH [OF d])
  also have "\<dots> = (case map_of (x # xs) k of
        Some v \<Rightarrow> if v \<noteq> Str [] \<and> k \<noteq> ''file'' then Some v else obj_get r k
      | None \<Rightarrow> obj_get r k)"
    using notin by (auto simp: x obj_get_copy_field split: option.splits)
  finally show ?case .
qed

lemma distinct_copy_field: "distinct (map fst r) \<Longrightarrow> distinct (map fst (copy_field x r))"
  by (simp add: copy_field_def distinct_obj_set)

lemma distinct_fold_copy: "distinct (map fst r) \<Longrightarrow> distinct (map fst (fold copy_field xs r))"
  by (induction xs arbitrary: r) (simp_all add: distinct_copy_field)

lemma length_fold_copy: "length (fold copy_field xs r) \<le> length r + length xs"
proof (induction xs arbitrary: r)
  case Nil
  then show ?case by simp
next
  case (Cons x xs)
  have "length (copy_field x r) \<le> Suc (length r)"
    using length_obj_set [of r "fst x" "snd x"] by (simp add: copy_field_def)
  then show ?case using Cons.IH [of "copy_field x r"] by simp
qed

lemma send_reqString_fold:
  "send_reqString self obj
   = fold copy_field (enum_order obj)
       [(''token'', if token self \<noteq> [] then Str (token self) else or_undefined (obj_get obj ''token'')),
        (''user'', if user self \<noteq> [] then Str (user self) else or_undefined (obj_get obj ''user''))]"
proof -
  have "(\<lambda>(p, v) reqString.
             if v \<noteq> Str [] then (if p \<noteq> ''file'' then obj_set reqString p v else reqString)
             else reqString) = copy_field"
    by (auto simp: fun_eq_iff copy_field_def)
  then show ?thesis by (simp add: send_reqString_def)
qed

lemma distinct_send_reqString: "distinct (map fst (send_reqString self obj))"
  by (simp add: send_reqString_fold distinct_fold_copy)

lemma length_send_reqString: "length (send_reqString self obj) \<le> length obj + 2"
proof -
  have "length (fold copy_field (enum_order obj) [a, b]) \<le> length obj + 2" for a b
    using length_fold_copy [of "enum_order obj" "[a, b]"] by (simp add: length_enum_order)
  then show ?thesis unfolding send_reqString_fold .
qed

lemma emitted_fields_empty:
  "list_all (\<lambda>(p, v). v = QStr []) obj \<Longrightarrow> emitted_fields obj = []"
proof -
  assume a: "list_all (\<lambda>(p, v). v = QStr []) obj"
  have "filter (\<lambda>(p, v). qval_nonempty v) (enum_order obj) = []"
    using a by (auto simp: filter_empty_conv set_enum_order list_all_iff)
  then show ?thesis by (simp add: emitted_fields_def)
qed

lemma strip_text_parts:
  "take (length (concat (map (text_part b) (ps @ [kv]))) - 2) (concat (map (text_part b) (ps @ [kv])))
   = concat (map (text_part b) ps) @ b @ CRLF @ disposition (fst kv) @ CRLF @ CRLF @ snd kv"
proof -
  define X where "X = concat (map (text_part b) ps) @ b @ CRLF @ disposition (fst kv) @ CRLF @ CRLF @ snd kv"
  have e: "concat (map (text_part b) (ps @ [kv])) = X @ CRLF"
    by (simp add: text_part_def X_def)
  have "take (length (X @ CRLF) - 2) (X @ CRLF) = X"
    by (simp add: CRLF_def)
  then show ?thesis unfolding e X_def .
qed

lemma body_without_attachment:
  "reqString2MP rs b None
   = take (length (concat (map (text_part b) (emitted_fields (qs_parse rs)))) - 2)
       (concat (map (text_part b) (emitted_fields (qs_parse rs))))
     @ b @ ''--'' @ CRLF"
proof (cases "emitted_fields (qs_parse rs)" rule: rev_cases)
  case Nil
  then show ?thesis by (simp add: body_without_attachment_empty)
next
  case (snoc ps kv)
  show ?thesis
    unfolding snoc strip_text_parts using body_without_attachment_snoc [OF snoc, of b] by simp
qed

lemma obj_get_file_setDefaults: "obj_get (setDefaults obj) ''file'' = obj_get obj ''file''"
  by (simp add: obj_get_setDefaults file_not_default)

lemma send_payload_obj:
  "obj_get obj ''file'' = Some (Obj img) \<Longrightarrow>
   send_payload fs self obj
   = Inr (reqString2MP (qs_stringify (send_reqString self (setDefaults obj))) (boundary self) (Some img))"
  by (simp add: send_payload_def obj_get_file_setDefaults Let_def)

lemma send_payload_path:
  "obj_get obj ''file'' = Some (Str imgPath) \<Longrightarrow> imgPath \<noteq> [] \<Longrightarrow>
   send_payload fs self obj
   = (case loadImage fs imgPath of
        Inl ex \<Rightarrow> Inl ex
      | Inr img \<Rightarrow>
          Inr (reqString2MP (qs_stringify (send_reqString self (setDefaults obj))) (boundary self) (Some img)))"
  by (simp add: send_payload_def obj_get_file_setDefaults Let_def)

lemma send_payload_none:
  "falsy (obj_get obj ''file'') \<Longrightarrow>
   send_payload fs self obj
   = Inr (reqString2MP (qs_stringify (send_reqString self (setDefaults obj))) (boundary self) None)"
  by (simp add: send_payload_def obj_get_file_setDefaults Let_def)

lemma obj_get_map_val:
  "obj_get (map (\<lambda>(k, v). (k, f v)) xs) k = map_option f (obj_get xs k)"
  by (induction xs) (auto simp: obj_get_def)

lemma send_reqString_roundtrip:
  assumes "length obj \<le> 991"
  shows "qs_parse (qs_stringify (send_reqString self (setDefaults obj)))
         = map (\<lambda>(k, v). (k, QStr (stringifyPrimitive v)))
             (enum_order (send_reqString self (setDefaults obj)))"
proof -
  have "length (send_reqString self (setDefaults obj)) \<le> length (setDefaults obj) + 2"
    by (rule length_send_reqString)
  also have "\<dots> \<le> length obj + 9" using length_setDefaults [of obj] by simp
  finally have "length (send_reqString self (setDefaults obj)) \<le> 1000" using assms by simp
  then show ?thesis
    using qs_roundtrip [OF distinct_send_reqString] by blast
qed

lemma obj_get_send_reqString:
  assumes "distinct (map fst obj)"
  shows "obj_get (send_reqString self obj) k
         = (case obj_get obj k of
              Some v \<Rightarrow>
                if v \<noteq> Str [] \<and> k \<noteq> ''file'' then Some v
                else if k = ''token'' then Some (if token self \<noteq> [] then Str (token self) else v)
                else if k = ''user'' then Some (if user self \<noteq> [] then Str (user self) else v)
                else None
            | None \<Rightarrow>
                if k = ''token'' then Some (if token self \<noteq> [] then Str (token self) else Undefined)
                else if k = ''user'' then Some (if user self \<noteq> [] then Str (user self) else Undefined)
                else None)"
proof -
  have d: "distinct (map fst (enum_order obj))" using assms by (rule distinct_enum_order)
  have m: "map_of (enum_order obj) k = obj_get obj k"
    using obj_get_enum_order [OF assms, of k] by (simp add: obj_get_def)
  show ?thesis
    unfolding send_reqString_fold obj_get_fold_copy [OF d] m
    by (auto simp: obj_get_def split: option.splits)
qed




lemma obj_get_parsed:
  assumes "length obj \<le> 991"
  shows "obj_get (qs_parse (qs_stringify (send_reqString self (setDefaults obj)))) k
         = map_option (\<lambda>v. QStr (stringifyPrimitive v))
             (obj_get (send_reqString self (setDefaults obj)) k)"
  unfolding send_reqString_roundtrip [OF assms] obj_get_map_val
  by (simp add: obj_get_enum_order [OF distinct_send_reqString])




lemma send_payload_body:
  "send_payload fs self obj = Inr body \<Longrightarrow>
   \<exists>att. body = reqString2MP (qs_stringify (send_reqString self (setDefaults obj))) (boundary self) att"
  by (auto simp: send_payload_def Let_def split: if_splits option.splits jsval.splits sum.splits)

lemma obj_get_pass_option: "k \<noteq> fst kv \<Longrightarrow> obj_get (pass_option kv r) k = obj_get r k"
  by (simp add: pass_option_def obj_get_obj_set)

lemma obj_get_fold_pass:
  "k \<notin> fst ` set xs \<Longrightarrow> obj_get (fold pass_option xs r) k = obj_get r k"
proof (induction xs arbitrary: r)
  case Nil
  then show ?case by simp
next
  case (Cons x xs)
  have "k \<noteq> fst x" and "k \<notin> fst ` set xs" using Cons.prems by auto
  then show ?case using Cons.IH [of "pass_option x r"] by (simp add: obj_get_pass_option)
qed

lemma pass_loop:
  "fold (\<lambda>(key, v) ropts. if key \<noteq> ''proxy'' then obj_set ropts key v else ropts) xs r
   = fold pass_option xs r"
proof -
  have "(\<lambda>(key, v) ropts. if key \<noteq> ''proxy'' then obj_set ropts key v else ropts) = pass_option"
    by (auto simp: fun_eq_iff pass_option_def)
  then show ?thesis by simp
qed

lemma send_options_kept:
  assumes "send_options url_parse self mp = Inr ropts"
    and "obj_get (case httpOptions self of Some h \<Rightarrow> h | None \<Rightarrow> []) ''method'' = None"
    and "obj_get (case httpOptions self of Some h \<Rightarrow> h | None \<Rightarrow> []) ''headers'' = None"
  shows "obj_get ropts ''method'' = Some (VStr ''POST'')"
    and "\<exists>hs. obj_get ropts ''headers'' = Some (VObj hs)
              \<and> obj_get hs ''Content-type''
                  = Some (VStr (''multipart/form-data; boundary='' @ drop 2 (boundary self)))
              \<and> obj_get hs ''Content-Length'' = Some (VNum (length mp))"
proof -
  define httpOpts where "httpOpts = (case httpOptions self of Some h \<Rightarrow> h | None \<Rightarrow> [])"
  define o2 where "o2 = obj_set (obj_set pUrl_parsed ''method'' (VStr ''POST'')) ''headers''
                          (VObj (send_headers self mp))"
  define o3 where "o3 = fold pass_option (enum_order httpOpts) o2"
  have nm: "''method'' \<notin> fst ` set (enum_order httpOpts)"
    using assms(2) by (simp add: httpOpts_def [symmetric] obj_get_None_iff set_enum_order)
  have nh: "''headers'' \<notin> fst ` set (enum_order httpOpts)"
    using assms(3) by (simp add: httpOpts_def [symmetric] obj_get_None_iff set_enum_order)
  have m3: "obj_get o3 ''method'' = Some (VStr ''POST'')"
    unfolding o3_def obj_get_fold_pass [OF nm] by (simp add: o2_def obj_get_obj_set)
  have h3: "obj_get o3 ''headers'' = Some (VObj (send_headers self mp))"
    unfolding o3_def obj_get_fold_pass [OF nh] by (simp add: o2_def obj_get_obj_set)
  have ct: "obj_get (send_headers self mp) ''Content-type''
            = Some (VStr (''multipart/form-data; boundary='' @ drop 2 (boundary self)))"
    and cl: "obj_get (send_headers self mp) ''Content-Length'' = Some (VNum (length mp))"
    by (simp_all add: send_headers_def obj_get_def)
  have so: "send_options url_parse self mp =
     (if via_proxy self then
           (case obj_get httpOpts ''proxy'' of
              Some (VStr u) \<Rightarrow>
                (let (hostname, protocol) = url_parse u;
                     host = opt_or_undefined (obj_get o3 ''host'')
                 in case opt_or_undefined (obj_get o3 ''headers'') of
                      VObj hs \<Rightarrow>
                        Inr (obj_set (obj_set (obj_set o3 ''headers'' (VObj (obj_set hs ''Host'' host)))
                               ''host'' hostname) ''protocol'' protocol)
                    | VNull \<Rightarrow> Inl (TypeError ''Cannot set properties of null'')
                    | VUndefined \<Rightarrow> Inl (TypeError ''Cannot set properties of undefined'')
                    | _ \<Rightarrow> Inr (obj_set (obj_set o3 ''host'' hostname) ''protocol'' protocol))
            | _ \<Rightarrow> Inl (TypeError ''The url argument must be of type string''))
         else Inr o3)"
    unfolding send_options_def Let_def pass_loop o3_def o2_def httpOpts_def ..
  show "obj_get ropts ''method'' = Some (VStr ''POST'')"
  proof (cases "via_proxy self")
    case False
    then show ?thesis using assms(1) m3 unfolding so by simp
  next
    case True
    then show ?thesis
      using assms(1) m3 unfolding so h3
      by (auto simp: obj_get_obj_set Let_def split: option.splits optval.splits prod.splits)
  qed
  show "\<exists>hs. obj_get ropts ''headers'' = Some (VObj hs)
              \<and> obj_get hs ''Content-type''
                  = Some (VStr (''multipart/form-data; boundary='' @ drop 2 (boundary self)))
              \<and> obj_get hs ''Content-Length'' = Some (VNum (length mp))"
  proof (cases "via_proxy self")
    case False
    then show ?thesis using assms(1) h3 ct cl unfolding so by auto
  next
    case True
    then show ?thesis
      using assms(1) ct cl unfolding so h3
      by (auto simp: obj_get_obj_set Let_def split: option.splits optval.splits prod.splits)
  qed
qed

lemma body_suffix: "suffix (b @ ''--'' @ CRLF) (reqString2MP rs b att)"
proof (cases att)
  case None
  show ?thesis unfolding None reqString2MP_def suffix_def by (simp add: Let_def)
next
  case (Some img)
  have "reqString2MP rs b (Some img) = (mp_framing rs b img @ img_data img @ CRLF) @ (b @ ''--'' @ CRLF)"
    by (simp add: body_with_attachment)
  then show ?thesis unfolding Some suffix_def by blast
qed

lemma prefix_parts: "prefix b (concat (map (text_part b) ps) @ b @ rest)"
  by (cases ps) (simp_all add: text_part_def)

lemma body_prefix: "prefix b (reqString2MP rs b att)"
proof (cases att)
  case (Some img)
  show ?thesis
    unfolding Some body_with_attachment mp_framing_def attachment_head_def
    using prefix_parts [of b] by simp
next
  case None
  show ?thesis
  proof (cases "emitted_fields (qs_parse rs)" rule: rev_cases)
    case Nil
    then show ?thesis unfolding None by (simp add: body_without_attachment_empty)
  next
    case (snoc ps kv)
    show ?thesis
      unfolding None body_without_attachment_snoc [OF snoc] by (rule prefix_parts)
  qed
qed

lemma updateSounds_catch_self: "fst (updateSounds_catch parse self calls reps res) = self"
  by (simp add: updateSounds_catch_def Let_def)

lemma updateSounds_end_self:
  "fst (updateSounds_end parse self received res)
   = self\<lparr>sounds := sounds (fst (updateSounds_end parse self received res))\<rparr>"
  by (simp add: updateSounds_end_def updateSounds_catch_self Let_def
      split: option.splits sum.splits)

lemma updateSounds_event_self:
  "rf_self (updateSounds_event parse res ev st)
   = (rf_self st)\<lparr>sounds := sounds (rf_self (updateSounds_event parse res ev st))\<rparr>"
proof (cases ev)
  case (Data chunk)
  then show ?thesis by (simp add: updateSounds_event_def)
next
  case End
  obtain s c r where e: "updateSounds_end parse (rf_self st) (rf_data st) res = (s, c, r)"
    by (cases "updateSounds_end parse (rf_self st) (rf_data st) res")
  have "s = (rf_self st)\<lparr>sounds := sounds s\<rparr>"
    using updateSounds_end_self [of parse "rf_self st" "rf_data st" res] by (simp add: e)
  then show ?thesis by (simp add: updateSounds_event_def End e)
next
  case (Failure x)
  then show ?thesis by (simp add: updateSounds_event_def updateSounds_error_def)
qed

lemma fold_updateSounds_self:
  "\<exists>t. rf_self (fold (updateSounds_event parse res) evs st) = (rf_self st)\<lparr>sounds := t\<rparr>"
proof (induction evs arbitrary: st)
  case Nil
  have "rf_self st = (rf_self st)\<lparr>sounds := sounds (rf_self st)\<rparr>" by simp
  then show ?case by (metis fold_simps(1))
next
  case (Cons ev evs)
  obtain t where t: "rf_self (fold (updateSounds_event parse res) evs (updateSounds_event parse res ev st))
                     = (rf_self (updateSounds_event parse res ev st))\<lparr>sounds := t\<rparr>"
    using Cons.IH by blast
  have "rf_self (updateSounds_event parse res ev st)\<lparr>sounds := t\<rparr> = (rf_self st)\<lparr>sounds := t\<rparr>"
    using updateSounds_event_self [of parse res ev st] by (metis pushover.update_convs(5) pushover.surjective pushover.select_convs)
  then show ?case using t by auto
qed

lemma updateSounds_self:
  "rf_self (updateSounds parse self res evs)
   = self\<lparr>sounds := sounds (rf_self (updateSounds parse self res evs))\<rparr>"
proof -
  obtain t where "rf_self (updateSounds parse self res evs) = self\<lparr>sounds := t\<rparr>"
    using fold_updateSounds_self [of parse res evs] unfolding updateSounds_def
    by (metis refresh.select_convs(1))
  then show ?thesis by simp
qed

lemma errors_parse_failure:
  "parse s = None \<Longrightarrow>
   errors parse self (Text s) res
   = (if onerror self then \<lparr>reports = [(Report_thrown (SyntaxError s), res)], raised = None\<rparr>
      else \<lparr>reports = [], raised = Some (TypeError ''this.onerror is not a function'')\<rparr>)"
  by (simp add: errors_def errors_parse_def errors_check_def)

lemma errors_parsed:
  "parse s = Some j \<Longrightarrow> errors parse self (Text s) res = errors_check self [] (DJson j) res"
  by (simp add: errors_def errors_parse_def)










lemma fold_send_data:
  "raised (ex_outcome st) = None \<Longrightarrow>
   fold (send_event parse self res) (map Data chunks) st = st\<lparr>ex_data := ex_data st @ concat chunks\<rparr>"
proof (induction chunks arbitrary: st)
  case Nil
  then show ?case by simp
next
  case (Cons c cs)
  have step: "send_event parse self res (Data c) st = st\<lparr>ex_data := ex_data st @ c\<rparr>"
    using Cons.prems by (simp add: send_event_def)
  have "raised (ex_outcome (st\<lparr>ex_data := ex_data st @ c\<rparr>)) = None" using Cons.prems by simp
  from Cons.IH [OF this] show ?case by (simp add: step)
qed

lemma send_event_suppressed:
  "\<not> ex_fn st \<Longrightarrow>
   \<not> ex_fn (send_event parse self res ev st) \<and> ex_calls (send_event parse self res ev st) = ex_calls st"
  by (cases ev) (simp_all add: send_event_def Let_def)

lemma fold_send_suppressed:
  "\<not> ex_fn st \<Longrightarrow> ex_calls (fold (send_event parse self res) evs st) = ex_calls st"
proof (induction evs arbitrary: st)
  case Nil
  then show ?case by simp
next
  case (Cons ev evs)
  have "\<not> ex_fn (send_event parse self res ev st)"
    and "ex_calls (send_event parse self res ev st) = ex_calls st"
    using send_event_suppressed [OF Cons.prems] by simp_all
  then show ?case using Cons.IH [of "send_event parse self res ev st"] by simp
qed

lemma run_end:
  "fold (send_event parse self res) (map Data chunks @ [End]) (exchange0 True)
   = (let r = errors parse self (Text (concat chunks)) (Some res) in
      \<lparr>ex_fn = True, ex_data = concat chunks,
       ex_calls = (if raised r = None then [Call None (Some (concat chunks)) (Some res)] else []),
       ex_outcome = r\<rparr>)"
  by (simp add: fold_send_data exchange0_def send_event_def Let_def)

lemma run_failure:
  "ex_calls (fold (send_event parse self res) (map Data chunks @ Failure e # rest) (exchange0 True))
   = [Call (Some e) None None]"
proof -
  define st where "st = send_event parse self res (Failure e)
                          ((exchange0 True)\<lparr>ex_data := ex_data (exchange0 True) @ concat chunks\<rparr>)"
  have c: "ex_calls st = [Call (Some e) None None]" and f: "\<not> ex_fn st"
    by (simp_all add: st_def send_event_def exchange0_def)
  have "fold (send_event parse self res) (map Data chunks @ Failure e # rest) (exchange0 True)
        = fold (send_event parse self res) rest st"
    by (simp add: fold_send_data exchange0_def st_def)
  then show ?thesis using fold_send_suppressed [OF f, of parse self res rest] c by simp
qed

lemma send_exchange:
  "send fs url_parse parse self obj fn res evs = Inr (rq, st) \<Longrightarrow>
   st = fold (send_event parse self res) evs (exchange0 fn)"
  by (auto simp: send_def exchange0_def split: sum.splits)

section \<open>The claims\<close>

text \<open>
  C1. The code breaks the claim in the path without attachment: the array is joined after
  its last element, the trailing boundary, was removed, and \<open>b + '--\r\n'\<close> is appended
  with no CRLF before it (the path with attachment appends \<open>'\r\n' + b + '--\r\n'\<close>). So
  the value of the last field is not terminated by CRLF and the body does not end with
  CRLF, the boundary marker and \<open>--\<close>: for the message \<open>{message: "hello"}\<close> the body
  ends with \<open>hello--abc--\<close> and CRLF.
\<close>

theorem last_value_runs_into_closing_delimiter:
  "send_payload sample_disk sample_client [(''message'', Str ''hello'')]
   = Inr (''--abc'' @ CRLF @ ''Content-Disposition: form-data; name=\"token\"'' @ CRLF @ CRLF @ ''T'' @ CRLF
          @ ''--abc'' @ CRLF @ ''Content-Disposition: form-data; name=\"user\"'' @ CRLF @ CRLF @ ''U'' @ CRLF
          @ ''--abc'' @ CRLF @ ''Content-Disposition: form-data; name=\"message\"'' @ CRLF @ CRLF
          @ ''hello--abc--'' @ CRLF)
   \<and> reqString2MP ''message=hi'' ''--abc'' None
     = ''--abc'' @ CRLF @ ''Content-Disposition: form-data; name=\"message\"'' @ CRLF @ CRLF
       @ ''hi--abc--'' @ CRLF
   \<and> \<not> suffix (CRLF @ ''--abc--'' @ CRLF) (reqString2MP ''message=hi'' ''--abc'' None)"
  by code_simp

text \<open>
  C2, as amended. The claim as stated fails: when the response carries an error list and
  no \<open>onerror\<close> handler is configured, \<open>errors\<close> throws in the \<open>end\<close> listener
  before the completion handler is reached, so the handler is not invoked at all. For a
  \<open>send\<close> call that got its request out and was given a completion handler: if the
  response ends after its chunks, with no error of the transport, and the error check
  returns normally, the handler is invoked exactly once, with \<open>undefined\<close>, the whole
  accumulated body and the response; if the transport reports an error, the handler is
  invoked exactly once, with that error alone, whatever events follow; and if the error
  check throws, the handler is not invoked and the exception is the one of \<open>errors\<close>.
\<close>

theorem completion_handler_once:
  assumes "send fs url_parse parse self obj True res evs = Inr (rq, st)"
  shows
  "(evs = map Data chunks @ [End]
      \<and> raised (errors parse self (Text (concat chunks)) (Some res)) = None \<longrightarrow>
      ex_calls st = [Call None (Some (concat chunks)) (Some res)])
   \<and> (evs = map Data chunks @ Failure e # rest \<longrightarrow> ex_calls st = [Call (Some e) None None])
   \<and> (evs = map Data chunks @ [End]
      \<and> raised (errors parse self (Text (concat chunks)) (Some res)) \<noteq> None \<longrightarrow>
      ex_calls st = []
      \<and> raised (ex_outcome st) = raised (errors parse self (Text (concat chunks)) (Some res)))"
proof -
  have st: "st = fold (send_event parse self res) evs (exchange0 True)"
    using assms by (rule send_exchange)
  show ?thesis
  proof (intro conjI impI)
    assume a: "evs = map Data chunks @ [End]
      \<and> raised (errors parse self (Text (concat chunks)) (Some res)) = None"
    then have e: "evs = map Data chunks @ [End]" by simp
    show "ex_calls st = [Call None (Some (concat chunks)) (Some res)]"
      unfolding st e run_end using a by (simp add: Let_def)
  next
    assume e: "evs = map Data chunks @ Failure e # rest"
    show "ex_calls st = [Call (Some e) None None]"
      unfolding st e by (rule run_failure)
  next
    assume a: "evs = map Data chunks @ [End]
      \<and> raised (errors parse self (Text (concat chunks)) (Some res)) \<noteq> None"
    then have e: "evs = map Data chunks @ [End]" by simp
    show "ex_calls st = []"
      unfolding st e run_end using a by (simp add: Let_def)
    show "raised (ex_outcome st) = raised (errors parse self (Text (concat chunks)) (Some res))"
      unfolding st e run_end by (simp add: Let_def)
  qed
qed

theorem completion_handler_once_witness:
  "(case send sample_disk (\<lambda>u. (VNull, VNull)) sample_parse sample_client
           [(''message'', Str ''hello'')] True (Response 200)
           [Data ''{\"sounds\":'', Data ''{\"bike\":\"Bike\"}}'', End] of
      Inl ex \<Rightarrow> False
    | Inr (rq, st) \<Rightarrow>
        ex_calls st = [Call None (Some ''{\"sounds\":{\"bike\":\"Bike\"}}'') (Some (Response 200))])
   \<and> (case send sample_disk (\<lambda>u. (VNull, VNull)) sample_parse sample_client
           [(''message'', Str ''hello'')] True (Response 200)
           [Failure ''ECONNRESET'', End] of
      Inl ex \<Rightarrow> False
    | Inr (rq, st) \<Rightarrow> ex_calls st = [Call (Some ''ECONNRESET'') None None])"
proof -
  let ?s1 = "send sample_disk (\<lambda>u. (VNull, VNull)) sample_parse sample_client
               [(''message'', Str ''hello'')] True (Response 200)
               [Data ''{\"sounds\":'', Data ''{\"bike\":\"Bike\"}}'', End]"
  let ?s2 = "send sample_disk (\<lambda>u. (VNull, VNull)) sample_parse sample_client
               [(''message'', Str ''hello'')] True (Response 200) [Failure ''ECONNRESET'', End]"
  have "\<not> isl ?s1" by code_simp
  then obtain rq1 st1 where e1: "?s1 = Inr (rq1, st1)" by (cases ?s1) auto
  have "\<not> isl ?s2" by code_simp
  then obtain rq2 st2 where e2: "?s2 = Inr (rq2, st2)" by (cases ?s2) auto
  have c: "concat [''{\"sounds\":'', ''{\"bike\":\"Bike\"}}''] = ''{\"sounds\":{\"bike\":\"Bike\"}}''"
    by simp
  have p: "sample_parse ''{\"sounds\":{\"bike\":\"Bike\"}}''
           = Some (JObj [(''sounds'', JObj [(''bike'', JStr ''Bike'')])])"
    by (simp add: sample_parse_def)
  have h1: "[Data ''{\"sounds\":'', Data ''{\"bike\":\"Bike\"}}'', End]
              = map Data [''{\"sounds\":'', ''{\"bike\":\"Bike\"}}''] @ [End]
            \<and> raised (errors sample_parse sample_client
                        (Text (concat [''{\"sounds\":'', ''{\"bike\":\"Bike\"}}''])) (Some (Response 200)))
              = None"
    unfolding c by (simp add: errors_parsed [where parse = sample_parse, OF p] errors_check_def)
  have h2: "[Failure ''ECONNRESET'', End] = map Data [] @ Failure ''ECONNRESET'' # [End]" by simp
  have 1: "ex_calls st1 = [Call None (Some ''{\"sounds\":{\"bike\":\"Bike\"}}'') (Some (Response 200))]"
    using completion_handler_once [OF e1, where chunks = "[''{\"sounds\":'', ''{\"bike\":\"Bike\"}}'']",
        THEN conjunct1] h1 unfolding c by blast
  have 2: "ex_calls st2 = [Call (Some ''ECONNRESET'') None None]"
    using completion_handler_once [OF e2, where chunks = "[]" and e = "''ECONNRESET''" and rest = "[End]",
        THEN conjunct2, THEN conjunct1] h2 by blast
  show ?thesis using 1 2 by (simp add: e1 e2)
qed

text \<open>
  C2, the claim as stated, refuted: a client without \<open>onerror\<close> handler sends a
  message with a completion handler; the response \<open>{"errors":["bad"]}\<close> arrives and
  ends. \<open>errors\<close> throws, and the completion handler is invoked zero times. And when
  the message names a file that cannot be read, \<open>send\<close> itself throws before any
  request is made, so no listener exists that could invoke the handler.
\<close>

theorem completion_handler_counterexample:
  "(case send sample_disk (\<lambda>u. (VNull, VNull)) sample_parse sample_client
           [(''message'', Str ''hello'')] True (Response 400)
           [Data ''{\"errors\":[\"bad\"]}'', End] of
      Inl ex \<Rightarrow> False
    | Inr (rq, st) \<Rightarrow>
        ex_calls st = [] \<and> raised (ex_outcome st) = Some (Error (Some (JStr ''bad''))))
   \<and> send sample_disk (\<lambda>u. (VNull, VNull)) sample_parse sample_client
         [(''message'', Str ''hello''), (''file'', Str ''/tmp/none.png'')] True (Response 200) [End]
       = Inl (IOError ''/tmp/none.png'')"
  by code_simp



text \<open>
  C4, as amended. The claim as stated fails: given no field with a non-empty value and no
  attachment, the encoder removes the boundary it pushed first (\<open>a.splice(-1, 1)\<close> on the
  array that holds nothing else), so the body does not begin with a boundary line. The
  body is the closing delimiter alone: the boundary marker, \<open>--\<close> and CRLF.
\<close>

theorem degenerate_body:
  assumes "list_all (\<lambda>(p, v). v = QStr []) (qs_parse rs)"
  shows "reqString2MP rs b None = b @ ''--'' @ CRLF"
  using assms by (simp add: emitted_fields_empty body_without_attachment_empty)

theorem degenerate_body_witness:
  "list_all (\<lambda>(p, v). v = QStr []) (qs_parse ''title=&sound='')
   \<and> reqString2MP ''title=&sound='' ''--abc'' None = ''--abc--'' @ CRLF"
proof -
  have h: "list_all (\<lambda>(p, v). v = QStr []) (qs_parse ''title=&sound='')" by code_simp
  show ?thesis using h degenerate_body [OF h, of "''--abc''"] by simp
qed

text \<open>
  C4, the claim as stated, refuted: with no field at all, and with two fields whose values
  are empty, the body for the boundary \<open>--abc\<close> is \<open>--abc--\<close> and CRLF, and does not
  begin with the boundary line.
\<close>

theorem degenerate_body_counterexample:
  "reqString2MP [] ''--abc'' None = ''--abc--'' @ CRLF
   \<and> \<not> prefix (''--abc'' @ CRLF) (reqString2MP [] ''--abc'' None)
   \<and> reqString2MP ''title=&sound='' ''--abc'' None = ''--abc--'' @ CRLF
   \<and> \<not> prefix (''--abc'' @ CRLF) (reqString2MP ''title=&sound='' ''--abc'' None)"
  by code_simp

text \<open>
  C5. The request map the encoder receives, \<open>M\<close>: the object \<open>reqString\<close> of lines
  229 to 241 after \<open>qs.stringify\<close> and \<open>qs.parse\<close>. For a message with at most 991
  properties (so that the 1000 keys \<open>qs.parse\<close> reads are not exceeded), \<open>token\<close> and
  \<open>user\<close> are the instance's stored credentials unless the message has a property of
  that name which is not the empty string, and then that value takes effect; every
  other property of the message that is not the empty string after default-filling, and
  so every property that is not falsy, is copied, except \<open>file\<close>; and nothing else is
  in the map.
\<close>

theorem request_map:
  fixes self :: pushover and obj :: "jsval jsobject"
  defines "M \<equiv> qs_parse (qs_stringify (send_reqString self (setDefaults obj)))"
  assumes "distinct (map fst obj)" and "length obj \<le> 991"
  shows
  "obj_get M ''token''
     = Some (QStr (case obj_get obj ''token'' of
                     Some v \<Rightarrow> if v \<noteq> Str [] then stringifyPrimitive v else token self
                   | None \<Rightarrow> token self))
   \<and> obj_get M ''user''
     = Some (QStr (case obj_get obj ''user'' of
                     Some v \<Rightarrow> if v \<noteq> Str [] then stringifyPrimitive v else user self
                   | None \<Rightarrow> user self))
   \<and> (\<forall>k v. obj_get (setDefaults obj) k = Some v \<and> v \<noteq> Str [] \<and> k \<noteq> ''file''
          \<longrightarrow> obj_get M k = Some (QStr (stringifyPrimitive v)))
   \<and> (\<forall>k v. obj_get obj k = Some v \<and> \<not> falsy (Some v) \<and> k \<noteq> ''file''
          \<longrightarrow> obj_get M k = Some (QStr (stringifyPrimitive v)))
   \<and> (\<forall>k. k \<noteq> ''token'' \<and> k \<noteq> ''user''
            \<and> (k = ''file'' \<or> obj_get (setDefaults obj) k = None
                \<or> obj_get (setDefaults obj) k = Some (Str []))
          \<longrightarrow> obj_get M k = None)"
proof -
  have d: "distinct (map fst (setDefaults obj))" using assms(2) by (rule distinct_setDefaults)
  note g = obj_get_parsed [OF assms(3), of self] obj_get_send_reqString [OF d, of self]
  have tok: "obj_get (setDefaults obj) ''token'' = obj_get obj ''token''"
    by (simp add: obj_get_setDefaults token_not_default)
  have usr: "obj_get (setDefaults obj) ''user'' = obj_get obj ''user''"
    by (simp add: obj_get_setDefaults user_not_default)
  have 1: "obj_get M ''token''
     = Some (QStr (case obj_get obj ''token'' of
                     Some v \<Rightarrow> if v \<noteq> Str [] then stringifyPrimitive v else token self
                   | None \<Rightarrow> token self))"
    unfolding M_def g tok by (auto split: option.splits)
  have 2: "obj_get M ''user''
     = Some (QStr (case obj_get obj ''user'' of
                     Some v \<Rightarrow> if v \<noteq> Str [] then stringifyPrimitive v else user self
                   | None \<Rightarrow> user self))"
    unfolding M_def g usr by (auto split: option.splits)
  have 3: "obj_get M k = Some (QStr (stringifyPrimitive v))"
    if "obj_get (setDefaults obj) k = Some v \<and> v \<noteq> Str [] \<and> k \<noteq> ''file''" for k v
    unfolding M_def g using that by simp
  have 4: "obj_get M k = Some (QStr (stringifyPrimitive v))"
    if h: "obj_get obj k = Some v \<and> \<not> falsy (Some v) \<and> k \<noteq> ''file''" for k v
  proof -
    have "obj_get (setDefaults obj) k = Some v" using h by (simp add: obj_get_setDefaults)
    moreover have "v \<noteq> Str []" using h by auto
    ultimately show ?thesis using 3 h by blast
  qed
  have 5: "obj_get M k = None"
    if "k \<noteq> ''token'' \<and> k \<noteq> ''user''
        \<and> (k = ''file'' \<or> obj_get (setDefaults obj) k = None \<or> obj_get (setDefaults obj) k = Some (Str []))"
    for k
    unfolding M_def g using that by (auto split: option.splits)
  show ?thesis using 1 2 3 4 5 by blast
qed

theorem request_map_witness:
  "distinct (map fst [(''message'', Str ''hello''), (''token'', Str ''X''), (''title'', Str []),
                      (''sound'', Str ''bike''), (''file'', Str ''/tmp/pic.png'')])
   \<and> obj_get (qs_parse (qs_stringify (send_reqString sample_client (setDefaults
          [(''message'', Str ''hello''), (''token'', Str ''X''), (''title'', Str []),
           (''sound'', Str ''bike''), (''file'', Str ''/tmp/pic.png'')])))) ''token'' = Some (QStr ''X'')
   \<and> obj_get (qs_parse (qs_stringify (send_reqString sample_client (setDefaults
          [(''message'', Str ''hello''), (''token'', Str ''X''), (''title'', Str []),
           (''sound'', Str ''bike''), (''file'', Str ''/tmp/pic.png'')])))) ''user'' = Some (QStr ''U'')
   \<and> obj_get (qs_parse (qs_stringify (send_reqString sample_client (setDefaults
          [(''message'', Str ''hello''), (''token'', Str ''X''), (''title'', Str []),
           (''sound'', Str ''bike''), (''file'', Str ''/tmp/pic.png'')])))) ''sound'' = Some (QStr ''bike'')
   \<and> obj_get (qs_parse (qs_stringify (send_reqString sample_client (setDefaults
          [(''message'', Str ''hello''), (''token'', Str ''X''), (''title'', Str []),
           (''sound'', Str ''bike''), (''file'', Str ''/tmp/pic.png'')])))) ''title'' = None
   \<and> obj_get (qs_parse (qs_stringify (send_reqString sample_client (setDefaults
          [(''message'', Str ''hello''), (''token'', Str ''X''), (''title'', Str []),
           (''sound'', Str ''bike''), (''file'', Str ''/tmp/pic.png'')])))) ''file'' = None"
proof -
  define m where "m = [(''message'', Str ''hello''), (''token'', Str ''X''), (''title'', Str []),
                       (''sound'', Str ''bike''), (''file'', Str ''/tmp/pic.png'')]"
  have d: "distinct (map fst m)" by (simp add: m_def)
  have l: "length m \<le> 991" by (simp add: m_def)
  note r = request_map [OF d l, of sample_client]
  have tok: "obj_get m ''token'' = Some (Str ''X'')" by (simp add: m_def obj_get_def)
  have usr: "obj_get m ''user'' = None" by (simp add: m_def obj_get_def)
  have u: "user sample_client = ''U''" by (simp add: sample_client_def sample_opts_def Pushover_def)
  have snd: "obj_get m ''sound'' = Some (Str ''bike'') \<and> \<not> falsy (Some (Str ''bike'')) \<and> ''sound'' \<noteq> ''file''"
    by (simp add: m_def obj_get_def)
  have ttl: "''title'' \<noteq> ''token'' \<and> ''title'' \<noteq> ''user''
             \<and> (''title'' = ''file'' \<or> obj_get (setDefaults m) ''title'' = None
                 \<or> obj_get (setDefaults m) ''title'' = Some (Str []))"
  proof -
    have "obj_get (setDefaults m) ''title'' = Some (Str [])" unfolding m_def by code_simp
    then show ?thesis by simp
  qed
  have fl: "''file'' \<noteq> ''token'' \<and> ''file'' \<noteq> ''user''
             \<and> (''file'' = ''file'' \<or> obj_get (setDefaults m) ''file'' = None
                 \<or> obj_get (setDefaults m) ''file'' = Some (Str []))"
    by simp
  note r1 = r [THEN conjunct1]
  note r2 = r [THEN conjunct2, THEN conjunct1]
  note r4 = r [THEN conjunct2, THEN conjunct2, THEN conjunct2, THEN conjunct1, rule_format]
  note r5 = r [THEN conjunct2, THEN conjunct2, THEN conjunct2, THEN conjunct2, rule_format]
  have 1: "obj_get (qs_parse (qs_stringify (send_reqString sample_client (setDefaults m)))) ''token''
           = Some (QStr ''X'')"
    using r1 by (simp add: tok)
  have 2: "obj_get (qs_parse (qs_stringify (send_reqString sample_client (setDefaults m)))) ''user''
           = Some (QStr ''U'')"
    using r2 by (simp add: usr u)
  have 3: "obj_get (qs_parse (qs_stringify (send_reqString sample_client (setDefaults m)))) ''sound''
           = Some (QStr ''bike'')"
    using r4 [OF snd] by simp
  have 4: "obj_get (qs_parse (qs_stringify (send_reqString sample_client (setDefaults m)))) ''title'' = None"
    by (rule r5 [OF ttl])
  have 5: "obj_get (qs_parse (qs_stringify (send_reqString sample_client (setDefaults m)))) ''file'' = None"
    by (rule r5 [OF fl])
  show ?thesis
    using d 1 2 3 4 5 unfolding m_def by (intro conjI)
qed



text \<open>
  C7. The attachment part of the body that \<open>send\<close> encodes. \<open>texts\<close> are the text
  parts. When \<open>file\<close> is an attachment object, one attachment part follows them: its
  \<open>Content-Disposition\<close> carries the object's name as \<open>filename\<close> and its
  \<open>Content-Type\<close> the declared type, or \<open>application/octet-stream\<close> if none is given;
  then come the content and the closing delimiter. When \<open>file\<close> is the path of a
  readable file, the same holds with the final segment of the path as the name, the
  bytes of the file as the content and \<open>application/octet-stream\<close> as the type. When no
  attachment is supplied (\<open>file\<close> absent, \<open>undefined\<close> or empty), the body holds the
  text parts (without the last CRLF) and the closing delimiter, and no attachment part.
\<close>

theorem attachment_part_iff_supplied:
  fixes self :: pushover and obj :: "jsval jsobject"
  defines "b \<equiv> boundary self"
  defines "texts \<equiv> concat (map (text_part (boundary self))
                      (emitted_fields (qs_parse (qs_stringify (send_reqString self (setDefaults obj))))))"
  shows
  "(obj_get obj ''file'' = Some (Obj img) \<longrightarrow>
      send_payload fs self obj
      = Inr (texts @ attachment_head b (img_name img) (declared_type img) @ img_data img
             @ CRLF @ b @ ''--'' @ CRLF))
   \<and> (obj_get obj ''file'' = Some (Str imgPath) \<and> imgPath \<noteq> [] \<and> fs imgPath = Some bs \<longrightarrow>
      send_payload fs self obj
      = Inr (texts @ attachment_head b (basename imgPath) ''application/octet-stream'' @ bs
             @ CRLF @ b @ ''--'' @ CRLF))
   \<and> (falsy (obj_get obj ''file'') \<longrightarrow>
      send_payload fs self obj = Inr (take (length texts - 2) texts @ b @ ''--'' @ CRLF))"
proof (intro conjI impI)
  assume "obj_get obj ''file'' = Some (Obj img)"
  then show "send_payload fs self obj
      = Inr (texts @ attachment_head b (img_name img) (declared_type img) @ img_data img
             @ CRLF @ b @ ''--'' @ CRLF)"
    by (simp add: send_payload_obj body_with_attachment mp_framing_def b_def texts_def)
next
  assume "obj_get obj ''file'' = Some (Str imgPath) \<and> imgPath \<noteq> [] \<and> fs imgPath = Some bs"
  then show "send_payload fs self obj
      = Inr (texts @ attachment_head b (basename imgPath) ''application/octet-stream'' @ bs
             @ CRLF @ b @ ''--'' @ CRLF)"
    by (simp add: send_payload_path loadImage_def body_with_attachment mp_framing_def
        declared_type_def b_def texts_def)
next
  assume "falsy (obj_get obj ''file'')"
  then show "send_payload fs self obj = Inr (take (length texts - 2) texts @ b @ ''--'' @ CRLF)"
    using body_without_attachment [of "qs_stringify (send_reqString self (setDefaults obj))" b]
    by (simp add: send_payload_none b_def texts_def)
qed

theorem attachment_part_iff_supplied_witness:
  "send_payload sample_disk sample_client
     [(''message'', Str ''img''),
      (''file'', Obj \<lparr>img_name = ''cat.png'', img_data = [CHR 0xFF, CHR 0x00], img_type = Some ''image/png''\<rparr>)]
   = Inr (''--abc'' @ CRLF @ ''Content-Disposition: form-data; name=\"token\"'' @ CRLF @ CRLF @ ''T'' @ CRLF
          @ ''--abc'' @ CRLF @ ''Content-Disposition: form-data; name=\"user\"'' @ CRLF @ CRLF @ ''U'' @ CRLF
          @ ''--abc'' @ CRLF @ ''Content-Disposition: form-data; name=\"message\"'' @ CRLF @ CRLF @ ''img'' @ CRLF
          @ ''--abc'' @ CRLF @ ''Content-Disposition: form-data; name=\"attachment\"; filename=\"cat.png\"'' @ CRLF
          @ ''Content-Type: image/png'' @ CRLF @ CRLF @ [CHR 0xFF, CHR 0x00] @ CRLF @ ''--abc--'' @ CRLF)
   \<and> send_payload sample_disk sample_client [(''message'', Str ''img''), (''file'', Str ''/tmp/pic.png'')]
   = Inr (''--abc'' @ CRLF @ ''Content-Disposition: form-data; name=\"token\"'' @ CRLF @ CRLF @ ''T'' @ CRLF
          @ ''--abc'' @ CRLF @ ''Content-Disposition: form-data; name=\"user\"'' @ CRLF @ CRLF @ ''U'' @ CRLF
          @ ''--abc'' @ CRLF @ ''Content-Disposition: form-data; name=\"message\"'' @ CRLF @ CRLF @ ''img'' @ CRLF
          @ ''--abc'' @ CRLF @ ''Content-Disposition: form-data; name=\"attachment\"; filename=\"pic.png\"'' @ CRLF
          @ ''Content-Type: application/octet-stream'' @ CRLF @ CRLF @ [CHR 0x89, CHR 0x50] @ CRLF @ ''--abc--'' @ CRLF)
   \<and> send_payload sample_disk sample_client [(''message'', Str ''img'')]
   = Inr (''--abc'' @ CRLF @ ''Content-Disposition: form-data; name=\"token\"'' @ CRLF @ CRLF @ ''T'' @ CRLF
          @ ''--abc'' @ CRLF @ ''Content-Disposition: form-data; name=\"user\"'' @ CRLF @ CRLF @ ''U'' @ CRLF
          @ ''--abc'' @ CRLF @ ''Content-Disposition: form-data; name=\"message\"'' @ CRLF @ CRLF @ ''img''
          @ ''--abc--'' @ CRLF)"
proof -
  define img where "img = \<lparr>img_name = ''cat.png'', img_data = [CHR 0xFF, CHR 0x00], img_type = Some ''image/png''\<rparr>"
  define m1 where "m1 = [(''message'', Str ''img''), (''file'', Obj img)]"
  define m2 where "m2 = [(''message'', Str ''img''), (''file'', Str ''/tmp/pic.png'')]"
  define m3 where "m3 = [(''message'', Str ''img'')]"
  define texts where "texts = ''--abc'' @ CRLF @ ''Content-Disposition: form-data; name=\"token\"'' @ CRLF @ CRLF @ ''T'' @ CRLF
          @ ''--abc'' @ CRLF @ ''Content-Disposition: form-data; name=\"user\"'' @ CRLF @ CRLF @ ''U'' @ CRLF
          @ ''--abc'' @ CRLF @ ''Content-Disposition: form-data; name=\"message\"'' @ CRLF @ CRLF @ ''img'' @ CRLF"
  have b: "boundary sample_client = ''--abc''" by code_simp
  have t1: "concat (map (text_part ''--abc'')
              (emitted_fields (qs_parse (qs_stringify (send_reqString sample_client (setDefaults m1))))))
            = texts"
    unfolding m1_def img_def texts_def by code_simp
  have t2: "concat (map (text_part ''--abc'')
              (emitted_fields (qs_parse (qs_stringify (send_reqString sample_client (setDefaults m2))))))
            = texts"
    unfolding m2_def texts_def by code_simp
  have t3: "concat (map (text_part ''--abc'')
              (emitted_fields (qs_parse (qs_stringify (send_reqString sample_client (setDefaults m3))))))
            = texts"
    unfolding m3_def texts_def by code_simp
  have h1: "obj_get m1 ''file'' = Some (Obj img)" by (simp add: m1_def obj_get_def)
  have h2: "obj_get m2 ''file'' = Some (Str ''/tmp/pic.png'') \<and> ''/tmp/pic.png'' \<noteq> []
            \<and> sample_disk ''/tmp/pic.png'' = Some [CHR 0x89, CHR 0x50]"
    by (simp add: m2_def obj_get_def sample_disk_def)
  have h3: "falsy (obj_get m3 ''file'')" by (simp add: m3_def obj_get_def)
  have bn: "basename ''/tmp/pic.png'' = ''pic.png''" by code_simp
  have cut: "take (length texts - 2) texts = ''--abc'' @ CRLF @ ''Content-Disposition: form-data; name=\"token\"'' @ CRLF @ CRLF @ ''T'' @ CRLF
          @ ''--abc'' @ CRLF @ ''Content-Disposition: form-data; name=\"user\"'' @ CRLF @ CRLF @ ''U'' @ CRLF
          @ ''--abc'' @ CRLF @ ''Content-Disposition: form-data; name=\"message\"'' @ CRLF @ CRLF @ ''img''"
    unfolding texts_def by (simp add: CRLF_def)
  have r1: "send_payload sample_disk sample_client m1
            = Inr (texts @ attachment_head ''--abc'' ''cat.png'' ''image/png'' @ [CHR 0xFF, CHR 0x00]
                   @ CRLF @ ''--abc'' @ ''--'' @ CRLF)"
    using attachment_part_iff_supplied [of m1 img sample_disk sample_client] h1
    by (simp add: t1 b img_def declared_type_def)
  have r2: "send_payload sample_disk sample_client m2
            = Inr (texts @ attachment_head ''--abc'' ''pic.png'' ''application/octet-stream'' @ [CHR 0x89, CHR 0x50]
                   @ CRLF @ ''--abc'' @ ''--'' @ CRLF)"
    using attachment_part_iff_supplied [of m2 _ sample_disk sample_client "''/tmp/pic.png''" "[CHR 0x89, CHR 0x50]"] h2
    by (simp add: t2 b bn)
  have r3: "send_payload sample_disk sample_client m3
            = Inr (take (length texts - 2) texts @ ''--abc'' @ ''--'' @ CRLF)"
    using attachment_part_iff_supplied [of m3 _ sample_disk sample_client] h3
    by (simp add: t3 b)
  show ?thesis
    using r1 r2 r3 unfolding cut unfolding m1_def m2_def m3_def img_def texts_def attachment_head_def
    by simp
qed

text \<open>
  C8. The attachment's bytes stand in the body as they are. With an attachment, the body
  is the text framing (the first buffer of line 88, which is \<open>mp_framing\<close>: the text
  parts and the head of the attachment part), then the attachment's content, then the
  closing delimiter. The framing does not depend on the content; cutting the body after
  the framing and taking as many bytes as the content has gives the content back; and
  the length of the body is the length of the framing plus the length of the content
  plus the length of the closing delimiter.
\<close>

theorem attachment_bytes_verbatim:
  "join CRLF (mp_array rs b (Some img)) = mp_framing rs b img
   \<and> reqString2MP rs b (Some img) = mp_framing rs b img @ img_data img @ (CRLF @ b @ ''--'' @ CRLF)
   \<and> mp_framing rs b (img\<lparr>img_data := d\<rparr>) = mp_framing rs b img
   \<and> take (length (img_data img)) (drop (length (mp_framing rs b img)) (reqString2MP rs b (Some img)))
       = img_data img
   \<and> length (reqString2MP rs b (Some img))
       = length (mp_framing rs b img) + length (img_data img) + length (CRLF @ b @ ''--'' @ CRLF)"
proof -
  have body: "reqString2MP rs b (Some img)
              = mp_framing rs b img @ img_data img @ (CRLF @ b @ ''--'' @ CRLF)"
    using body_with_attachment [of rs b img] by simp
  have indep: "mp_framing rs b (img\<lparr>img_data := d\<rparr>) = mp_framing rs b img"
    by (simp add: mp_framing_def declared_type_def)
  have cut: "take (length (img_data img))
               (drop (length (mp_framing rs b img)) (reqString2MP rs b (Some img)))
             = img_data img"
    unfolding body by simp
  have len: "length (reqString2MP rs b (Some img))
             = length (mp_framing rs b img) + length (img_data img)
               + length (CRLF @ b @ ''--'' @ CRLF)"
    unfolding body by simp
  show ?thesis
    using framing_eq [of rs b img] body indep cut len by blast
qed

text \<open>
  C9, as amended. The claim as stated fails: every entry of \<open>httpOptions\<close> but
  \<open>proxy\<close> is copied over the options of the request (lines 264 to 268), so an entry
  \<open>method\<close> replaces \<open>POST\<close> and an entry \<open>headers\<close> replaces the headers \<open>send\<close>
  built. For an instance whose \<open>httpOptions\<close> have neither entry (an instance is what
  the constructor made, with whatever sound table the refreshes left): the request is a
  \<open>POST\<close>; its headers carry \<open>Content-type\<close> equal to
  \<open>multipart/form-data; boundary=\<close> followed by the token \<open>rnd\<close> the constructor drew,
  and \<open>Content-Length\<close> equal to the length of the body; the body begins with the
  delimiter \<open>--rnd\<close> and ends with \<open>--rnd--\<close> and CRLF; and a refresh of the sound
  table leaves the instance as the constructor made it but for the table, so the token is
  the same in every request.
\<close>

theorem request_headers:
  fixes opts :: opts and rnd :: string and t :: "json option"
  defines "self \<equiv> (Pushover opts rnd)\<lparr>sounds := t\<rparr>"
  assumes "send_request fs url_parse self obj = Inr rq"
    and "obj_get (case opt_httpOptions opts of Some h \<Rightarrow> h | None \<Rightarrow> []) ''method'' = None"
    and "obj_get (case opt_httpOptions opts of Some h \<Rightarrow> h | None \<Rightarrow> []) ''headers'' = None"
  shows
  "obj_get (req_options rq) ''method'' = Some (VStr ''POST'')
   \<and> (\<exists>hs. obj_get (req_options rq) ''headers'' = Some (VObj hs)
          \<and> obj_get hs ''Content-type'' = Some (VStr (''multipart/form-data; boundary='' @ rnd))
          \<and> obj_get hs ''Content-Length'' = Some (VNum (length (req_body rq))))
   \<and> prefix (''--'' @ rnd) (req_body rq)
   \<and> suffix (''--'' @ rnd @ ''--'' @ CRLF) (req_body rq)
   \<and> (\<exists>t'. rf_self (updateSounds parse self res evs) = (Pushover opts rnd)\<lparr>sounds := t'\<rparr>)"
proof -
  have b: "boundary self = ''--'' @ rnd" by (simp add: self_def Pushover_def)
  have h: "httpOptions self = opt_httpOptions opts" by (simp add: self_def Pushover_def)
  obtain mp where mp: "send_payload fs self obj = Inr mp"
    and so: "send_options url_parse self mp = Inr (req_options rq)" and body: "req_body rq = mp"
    using assms(2) by (auto simp: send_request_def split: sum.splits)
  obtain att where att: "mp = reqString2MP (qs_stringify (send_reqString self (setDefaults obj))) (boundary self) att"
    using send_payload_body [OF mp] by blast
  note k = send_options_kept [OF so, unfolded h, OF assms(3) assms(4)]
  have 1: "obj_get (req_options rq) ''method'' = Some (VStr ''POST'')" by (rule k(1))
  have 2: "\<exists>hs. obj_get (req_options rq) ''headers'' = Some (VObj hs)
          \<and> obj_get hs ''Content-type'' = Some (VStr (''multipart/form-data; boundary='' @ rnd))
          \<and> obj_get hs ''Content-Length'' = Some (VNum (length (req_body rq)))"
    using k(2) by (simp add: b body)
  have 3: "prefix (''--'' @ rnd) (req_body rq)"
    unfolding body att using body_prefix [of "boundary self"] by (simp only: b)
  have 4: "suffix (''--'' @ rnd @ ''--'' @ CRLF) (req_body rq)"
    unfolding body att using body_suffix [of "boundary self"] by (simp add: b)
  have 5: "\<exists>t'. rf_self (updateSounds parse self res evs) = (Pushover opts rnd)\<lparr>sounds := t'\<rparr>"
  proof -
    have "rf_self (updateSounds parse self res evs)
          = (Pushover opts rnd)\<lparr>sounds := sounds (rf_self (updateSounds parse self res evs))\<rparr>"
      using updateSounds_self [of parse self res evs] by (simp add: self_def)
    then show ?thesis by (rule exI)
  qed
  show ?thesis using 1 2 3 4 5 by (intro conjI)
qed

theorem request_headers_witness:
  "(case send_request sample_disk (\<lambda>u. (VNull, VNull))
           ((Pushover sample_opts ''abc'')\<lparr>sounds := None\<rparr>) [(''message'', Str ''hello'')] of
      Inl ex \<Rightarrow> False
    | Inr rq \<Rightarrow>
        obj_get (req_options rq) ''method'' = Some (VStr ''POST'')
        \<and> prefix ''--abc'' (req_body rq) \<and> suffix (''--abc--'' @ CRLF) (req_body rq))"
proof -
  let ?r = "send_request sample_disk (\<lambda>u. (VNull, VNull))
              ((Pushover sample_opts ''abc'')\<lparr>sounds := None\<rparr>) [(''message'', Str ''hello'')]"
  have "\<not> isl ?r" by code_simp
  then obtain rq where e: "?r = Inr rq" by (cases ?r) auto
  have m: "obj_get (case opt_httpOptions sample_opts of Some h \<Rightarrow> h | None \<Rightarrow> []) ''method'' = None"
    by (simp add: sample_opts_def obj_get_def)
  have hd: "obj_get (case opt_httpOptions sample_opts of Some h \<Rightarrow> h | None \<Rightarrow> []) ''headers'' = None"
    by (simp add: sample_opts_def obj_get_def)
  note r = request_headers [OF e m hd]
  show ?thesis
    using r [THEN conjunct1] r [THEN conjunct2, THEN conjunct2, THEN conjunct1]
      r [THEN conjunct2, THEN conjunct2, THEN conjunct2, THEN conjunct1]
    by (simp add: e)
qed

text \<open>
  C9, the claim as stated, refuted: with \<open>httpOptions = {method: 'GET'}\<close> the request
  \<open>send\<close> constructs is a \<open>GET\<close>, and with
  \<open>httpOptions = {headers: {'User-Agent': 'x'}}\<close> its headers are those of
  \<open>httpOptions\<close>, without \<open>Content-type\<close> and \<open>Content-Length\<close>.
\<close>

theorem request_headers_counterexample:
  "(case send_request sample_disk (\<lambda>u. (VNull, VNull))
           (Pushover (sample_opts\<lparr>opt_httpOptions := Some [(''method'', VStr ''GET'')]\<rparr>) ''abc'')
           [(''message'', Str ''hello'')] of
      Inl ex \<Rightarrow> False
    | Inr rq \<Rightarrow> obj_get (req_options rq) ''method'' = Some (VStr ''GET''))
   \<and> (case send_request sample_disk (\<lambda>u. (VNull, VNull))
           (Pushover (sample_opts\<lparr>opt_httpOptions :=
                        Some [(''headers'', VObj [(''User-Agent'', VStr ''x'')])]\<rparr>) ''abc'')
           [(''message'', Str ''hello'')] of
      Inl ex \<Rightarrow> False
    | Inr rq \<Rightarrow> obj_get (req_options rq) ''headers'' = Some (VObj [(''User-Agent'', VStr ''x'')]))"
  by code_simp

text \<open>
  C10. \<open>errors\<close> guards the missing handler only where it checks the error list. When
  the text is not JSON and no \<open>onerror\<close> handler is configured, the call of the absent
  handler throws a \<open>TypeError\<close> and nothing is reported; with a handler, the handler
  receives the parse error and \<open>errors\<close> returns. When the parsed response has a
  non-empty error list, \<open>errors\<close> throws an \<open>Error\<close> made of the first entry if no
  handler is configured, and gives the first entry to the handler otherwise. A client
  has a handler exactly when the options of the constructor gave one.
\<close>

theorem errors_parse_branch_unguarded:
  "(parse s = None \<and> \<not> onerror self \<longrightarrow>
      errors parse self (Text s) res
      = \<lparr>reports = [], raised = Some (TypeError ''this.onerror is not a function'')\<rparr>)
   \<and> (parse s = None \<and> onerror self \<longrightarrow>
      errors parse self (Text s) res
      = \<lparr>reports = [(Report_thrown (SyntaxError s), res)], raised = None\<rparr>)
   \<and> (parse s = Some (JObj ps) \<and> map_of ps ''errors'' = Some (JArr (e # es)) \<and> \<not> onerror self \<longrightarrow>
      errors parse self (Text s) res = \<lparr>reports = [], raised = Some (Error (Some e))\<rparr>)
   \<and> (parse s = Some (JObj ps) \<and> map_of ps ''errors'' = Some (JArr (e # es)) \<and> onerror self \<longrightarrow>
      errors parse self (Text s) res = \<lparr>reports = [(Report_value (Some e), res)], raised = None\<rparr>)
   \<and> onerror (Pushover opts rnd) = opt_onerror opts"
proof (intro conjI impI)
  assume "parse s = None \<and> \<not> onerror self"
  then show "errors parse self (Text s) res
      = \<lparr>reports = [], raised = Some (TypeError ''this.onerror is not a function'')\<rparr>"
    by (simp add: errors_parse_failure)
next
  assume "parse s = None \<and> onerror self"
  then show "errors parse self (Text s) res
      = \<lparr>reports = [(Report_thrown (SyntaxError s), res)], raised = None\<rparr>"
    by (simp add: errors_parse_failure)
next
  assume "parse s = Some (JObj ps) \<and> map_of ps ''errors'' = Some (JArr (e # es)) \<and> \<not> onerror self"
  then show "errors parse self (Text s) res = \<lparr>reports = [], raised = Some (Error (Some e))\<rparr>"
    by (simp add: errors_parsed errors_check_def)
next
  assume "parse s = Some (JObj ps) \<and> map_of ps ''errors'' = Some (JArr (e # es)) \<and> onerror self"
  then show "errors parse self (Text s) res = \<lparr>reports = [(Report_value (Some e), res)], raised = None\<rparr>"
    by (simp add: errors_parsed errors_check_def)
next
  show "onerror (Pushover opts rnd) = opt_onerror opts" by (simp add: Pushover_def)
qed

theorem errors_parse_branch_unguarded_witness:
  "errors sample_parse sample_client (Text ''<html>'') (Some (Response 502))
     = \<lparr>reports = [], raised = Some (TypeError ''this.onerror is not a function'')\<rparr>
   \<and> errors sample_parse (sample_client\<lparr>onerror := True\<rparr>) (Text ''<html>'') (Some (Response 502))
     = \<lparr>reports = [(Report_thrown (SyntaxError ''<html>''), Some (Response 502))], raised = None\<rparr>
   \<and> errors sample_parse sample_client (Text ''{\"errors\":[\"bad\"]}'') (Some (Response 400))
     = \<lparr>reports = [], raised = Some (Error (Some (JStr ''bad'')))\<rparr>
   \<and> errors sample_parse (sample_client\<lparr>onerror := True\<rparr>) (Text ''{\"errors\":[\"bad\"]}'')
        (Some (Response 400))
     = \<lparr>reports = [(Report_value (Some (JStr ''bad'')), Some (Response 400))], raised = None\<rparr>"
proof -
  have n: "\<not> onerror sample_client" by (simp add: sample_client_def sample_opts_def Pushover_def)
  have y: "onerror (sample_client\<lparr>onerror := True\<rparr>)" by simp
  have p1: "sample_parse ''<html>'' = None" by (simp add: sample_parse_def)
  have p2: "sample_parse ''{\"errors\":[\"bad\"]}'' = Some (JObj [(''errors'', JArr [JStr ''bad''])])"
    by (simp add: sample_parse_def)
  have m: "map_of [(''errors'', JArr [JStr ''bad''])] ''errors'' = Some (JArr (JStr ''bad'' # []))"
    by simp
  note r1 = errors_parse_branch_unguarded
    [where parse = sample_parse and s = "''<html>''" and res = "Some (Response 502)"]
  note r2 = errors_parse_branch_unguarded
    [where parse = sample_parse and s = "''{\"errors\":[\"bad\"]}''" and res = "Some (Response 400)"
       and ps = "[(''errors'', JArr [JStr ''bad''])]" and e = "JStr ''bad''" and es = "[]"]
  have 1: "errors sample_parse sample_client (Text ''<html>'') (Some (Response 502))
     = \<lparr>reports = [], raised = Some (TypeError ''this.onerror is not a function'')\<rparr>"
    using r1 [where self = sample_client, THEN conjunct1] p1 n by blast
  have 2: "errors sample_parse (sample_client\<lparr>onerror := True\<rparr>) (Text ''<html>'') (Some (Response 502))
     = \<lparr>reports = [(Report_thrown (SyntaxError ''<html>''), Some (Response 502))], raised = None\<rparr>"
    using r1 [where self = "sample_client\<lparr>onerror := True\<rparr>", THEN conjunct2, THEN conjunct1] p1 y
    by blast
  have 3: "errors sample_parse sample_client (Text ''{\"errors\":[\"bad\"]}'') (Some (Response 400))
     = \<lparr>reports = [], raised = Some (Error (Some (JStr ''bad'')))\<rparr>"
    using r2 [where self = sample_client, THEN conjunct2, THEN conjunct2, THEN conjunct1] p2 m n
    by blast
  have 4: "errors sample_parse (sample_client\<lparr>onerror := True\<rparr>) (Text ''{\"errors\":[\"bad\"]}'')
        (Some (Response 400))
     = \<lparr>reports = [(Report_value (Some (JStr ''bad'')), Some (Response 400))], raised = None\<rparr>"
    using r2 [where self = "sample_client\<lparr>onerror := True\<rparr>",
        THEN conjunct2, THEN conjunct2, THEN conjunct2, THEN conjunct1] p2 m y
    by blast
  show ?thesis using 1 2 3 4 by (intro conjI)
qed

end
